theory Spec2Isabelle
  imports Main "HOL-Library.Sublist" "HOL-Library.Multiset"
begin

chapter \<open>The analyzer job of rikki (analyzer.go)\<close>

section \<open>Go values and library functions\<close>

type_synonym bytes = string

text \<open>A Go \<open>error\<close> value; only its message matters here.\<close>

datatype err = Err string

subsection \<open>Package strings\<close>

text \<open>\<open>strings.Join\<close>: the elements in order, \<open>sep\<close> between neighbours.\<close>

fun strings_Join :: "string list \<Rightarrow> string \<Rightarrow> string" where
  "strings_Join [] sep = []"
| "strings_Join [a] sep = a"
| "strings_Join (a # b # rest) sep = a @ sep @ strings_Join (b # rest) sep"

text \<open>\<open>strings.TrimLeft\<close>: every leading character that belongs to the cutset is removed.\<close>

definition strings_TrimLeft :: "string \<Rightarrow> string \<Rightarrow> string" where
  "strings_TrimLeft s cutset = dropWhile (\<lambda>c. c \<in> set cutset) s"

text \<open>
  \<open>strings.NewReplacer(old1, new1, old2, new2, ...).Replace\<close>: the target is read from
  left to right; at each position the old strings are compared in argument order, the
  first one that matches there is replaced and the scan continues behind it; where none
  matches one character is copied. The model never matches an empty old string: the two
  old strings of the one call in analyzer.go, the joined directory and \<open>.md\<close>, are not
  empty.
\<close>

function Replacer_Replace :: "(string \<times> string) list \<Rightarrow> string \<Rightarrow> string" where
  "Replacer_Replace oldnew [] = []"
| "Replacer_Replace oldnew (c # cs) =
     (case find (\<lambda>(old, new). old \<noteq> [] \<and> prefix old (c # cs)) oldnew of
        Some (old, new) \<Rightarrow> new @ Replacer_Replace oldnew (drop (length old) (c # cs))
      | None \<Rightarrow> c # Replacer_Replace oldnew cs)"
  by pat_completeness auto
termination
  by (relation "measure (\<lambda>(oldnew, s). length s)") (auto simp: find_Some_iff)

subsection \<open>Package path/filepath\<close>

text \<open>The elements of a path between its separators.\<close>

fun split_on :: "char \<Rightarrow> string \<Rightarrow> string list" where
  "split_on sep [] = [[]]"
| "split_on sep (c # cs) =
     (if c = sep then [] # split_on sep cs
      else (case split_on sep cs of w # ws \<Rightarrow> (c # w) # ws | [] \<Rightarrow> [[c]]))"

text \<open>
  \<open>filepath.Clean\<close> on a system whose separator is \<open>/\<close>: empty elements and \<open>.\<close> are
  dropped, \<open>..\<close> removes the element before it when there is one that is not \<open>..\<close>
  itself, is dropped at the root, and is kept at the start of a relative path; the
  empty result is \<open>.\<close>.
\<close>

definition clean_elem :: "bool \<Rightarrow> string list \<Rightarrow> string \<Rightarrow> string list" where
  "clean_elem rooted out e =
     (if e = [] \<or> e = ''.'' then out
      else if e = ''..'' then
        (if out \<noteq> [] \<and> last out \<noteq> ''..'' then butlast out
         else if rooted then out
         else out @ [''..''])
      else out @ [e])"

definition filepath_Clean :: "string \<Rightarrow> string" where
  "filepath_Clean path =
     (if path = [] then ''.''
      else let rooted = (hd path = CHR ''/'');
               out = foldl (clean_elem rooted) [] (split_on CHR ''/'' path);
               s = (if rooted then ''/'' else []) @ strings_Join out ''/''
           in if s = [] then ''.'' else s)"

text \<open>
  \<open>filepath.Join\<close>: leading empty elements are ignored, the rest is joined with the
  separator and cleaned; no non-empty element gives the empty string.
\<close>

definition filepath_Join :: "string list \<Rightarrow> string" where
  "filepath_Join elem =
     (case dropWhile (\<lambda>e. e = []) elem of
        [] \<Rightarrow> []
      | es \<Rightarrow> filepath_Clean (strings_Join es ''/''))"

subsection \<open>Queue messages (go-workers, go-simplejson)\<close>

datatype json =
    JNull
  | JBool bool
  | JNumber int
  | JString string
  | JArray "json list"
  | JObject "(string \<times> json) list"

text \<open>\<open>workers.Msg\<close>: \<open>msg.Args()\<close> is the value of the message's argument field.\<close>

record Msg =
  Args :: json

text \<open>\<open>GetIndex\<close> of anything but an array, or out of range, wraps nil.\<close>

definition GetIndex :: "json \<Rightarrow> nat \<Rightarrow> json" where
  "GetIndex j index =
     (case j of
        JArray a \<Rightarrow> (if index < length a then a ! index else JNull)
      | _ \<Rightarrow> JNull)"

text \<open>\<open>String()\<close> is a type assertion to \<open>string\<close>.\<close>

definition Json_String :: "json \<Rightarrow> err + string" where
  "Json_String j =
     (case j of
        JString s \<Rightarrow> Inr s
      | _ \<Rightarrow> Inl (Err ''type assertion to string failed''))"

section \<open>The data of analyzer.go\<close>

text \<open>
  Modelled from the spec: the type of a fetched solution is declared outside
  analyzer.go. Lines 90-93 append every value of \<open>range solution.Files\<close> to a
  \<open>[]string\<close>, so the values of \<open>Files\<close> are strings, and the specification gives
  every file a name (\<open>{"solution.src": "code"}\<close>): \<open>Files\<close> is a Go map from file name
  to content. The model holds the entries of the map as the submission lists them;
  that order means nothing to Go, whose \<open>range\<close> visits the entries of a map in an
  order of its own (see \<open>range_Files\<close> below).
\<close>

record solution =
  TrackID :: string
  Files :: "(string \<times> string) list"

text \<open>
  Modelled from the spec: the exercism client is declared outside analyzer.go. The
  specification gives it the two operations \<open>fetchSolution(id)\<close>, which returns a
  submission or fails, and \<open>submitComment(content, submissionID)\<close>, which may fail.
\<close>

record Exercism =
  FetchSolution :: "string \<Rightarrow> err + solution"
  SubmitComment :: "bytes \<Rightarrow> string \<Rightarrow> err option"

record Analyzer =
  exercism :: Exercism
  analysseurHost :: string
  comments :: "string \<rightharpoonup> bytes"

record analysisResult =
  Type :: string
  Keys :: "string list"

record analysisPayload =
  Results :: "analysisResult list"
  Error :: string

section \<open>NewAnalyzer (lines 30-61)\<close>

text \<open>
  The file tree that \<open>filepath.Walk\<close> finds: a directory lists its entries by name, in
  the lexical order in which Walk visits them; any other file carries what \<open>read\<close>
  returns for it. The tree holds what Walk could examine and list: a path that it
  cannot examine, or a directory that it cannot list, is not a node of it.

  Modelled from the spec: \<open>read\<close> is declared outside analyzer.go. The specification
  maps a key "to each file's raw content" and lets the construction fail "if a file
  cannot be read".
\<close>

datatype fsnode =
    File "err + bytes"
  | Dir "(string \<times> fsnode) list"

text \<open>The calls that Walk makes: the root first, then each directory's entries in turn.\<close>

fun walk :: "string \<Rightarrow> fsnode \<Rightarrow> (string \<times> fsnode) list"
  and walk_names :: "string \<Rightarrow> (string \<times> fsnode) list \<Rightarrow> (string \<times> fsnode) list" where
  "walk path (File content) = [(path, File content)]"
| "walk path (Dir names) = (path, Dir names) # walk_names path names"
| "walk_names path [] = []"
| "walk_names path ((name, node) # rest) =
     walk (filepath_Join [path, name]) node @ walk_names path rest"

text \<open>
  The closure \<open>fn\<close> of lines 35-50, with the map \<open>comments\<close> it updates passed in and
  returned.
\<close>

definition fn :: "string \<Rightarrow> (string \<rightharpoonup> bytes) \<Rightarrow> string \<Rightarrow> fsnode \<Rightarrow> err + (string \<rightharpoonup> bytes)" where
  "fn dir cmts path info =
     (case info of
        Dir _ \<Rightarrow> Inr cmts
      | File content \<Rightarrow>
          (case content of
             Inl e \<Rightarrow> Inl e
           | Inr b \<Rightarrow>
               let key = Replacer_Replace [(dir, []), (''.md'', [])] path;
                   key = strings_TrimLeft key ''/''
               in Inr (cmts(key \<mapsto> b))))"

text \<open>Walk stops at the first error that \<open>fn\<close> returns.\<close>

fun walk_calls :: "string \<Rightarrow> (string \<rightharpoonup> bytes) \<Rightarrow> (string \<times> fsnode) list \<Rightarrow> err + (string \<rightharpoonup> bytes)" where
  "walk_calls dir cmts [] = Inr cmts"
| "walk_calls dir cmts ((path, info) # rest) =
     (case fn dir cmts path info of
        Inl e \<Rightarrow> Inl e
      | Inr cmts' \<Rightarrow> walk_calls dir cmts' rest)"

definition filepath_Walk :: "string \<Rightarrow> fsnode \<Rightarrow> err + (string \<rightharpoonup> bytes)" where
  "filepath_Walk dir tree = walk_calls dir Map.empty (walk dir tree)"

text \<open>\<open>tree\<close> is the file tree at the joined directory.\<close>

definition NewAnalyzer :: "Exercism \<Rightarrow> string \<Rightarrow> string \<Rightarrow> fsnode \<Rightarrow> err + Analyzer" where
  "NewAnalyzer ex analysseur dir tree =
     (let dir = filepath_Join [dir, ''analyzer'', ''ruby'']
      in case filepath_Walk dir tree of
           Inl e \<Rightarrow> Inl e
         | Inr cmts \<Rightarrow>
             Inr \<lparr>exercism = ex, analysseurHost = analysseur, comments = cmts\<rparr>)"

section \<open>process (lines 72-182)\<close>

subsection \<open>What a job does to the outside\<close>

record codeBody =
  Code :: string

record request =
  Method :: string
  URL :: string
  ReqBody :: bytes

text \<open>A response: its status and what \<open>ioutil.ReadAll\<close> gets from its body.\<close>

record response =
  StatusCode :: nat
  Body :: "err + bytes"

text \<open>
  The libraries, the runtime and the network, as far as one job sees them.
  \<open>http_NewRequest\<close> is the error with which the request is refused, if it is.
  \<open>rand_source i\<close> is the raw random number behind the call of \<open>rand.Intn\<close> in
  iteration \<open>i\<close> of the shuffle. \<open>range_Files\<close> is the order in which \<open>range\<close> visits
  the entries of the map \<open>Files\<close>: Go leaves it unspecified and promises only that
  every entry is visited once, so that the result is a permutation of the entries.
\<close>

record world =
  json_Marshal :: "codeBody \<Rightarrow> err + bytes"
  http_NewRequest :: "string \<Rightarrow> string \<Rightarrow> bytes \<Rightarrow> err option"
  http_Do :: "request \<Rightarrow> err + response"
  json_Unmarshal :: "bytes \<Rightarrow> err + analysisPayload"
  rand_source :: "nat \<Rightarrow> nat"
  range_Files :: "(string \<times> string) list \<Rightarrow> (string \<times> string) list"

text \<open>The arguments of a \<open>Printf\<close>: a string, an error value, a number.\<close>

datatype logarg = S string | E err | N nat

text \<open>
  The trace of a job: the lines it logs, with their format, and the calls it makes to
  the platform and to the analysis service.
\<close>

datatype event =
    Lgr_Printf string "logarg list"
  | Sanity_Printf string "logarg list"
  | Call_FetchSolution string
  | Call_Do request
  | Call_SubmitComment bytes string

fun is_submit :: "event \<Rightarrow> bool" where
  "is_submit (Call_SubmitComment c u) = True"
| "is_submit _ = False"

fun is_network :: "event \<Rightarrow> bool" where
  "is_network (Call_FetchSolution u) = True"
| "is_network (Call_Do r) = True"
| "is_network (Call_SubmitComment c u) = True"
| "is_network _ = False"

fun is_analyze :: "event \<Rightarrow> bool" where
  "is_analyze (Call_Do r) = True"
| "is_analyze _ = False"

text \<open>A line written to one of the two loggers.\<close>

fun is_log :: "event \<Rightarrow> bool" where
  "is_log (Lgr_Printf f args) = True"
| "is_log (Sanity_Printf f args) = True"
| "is_log _ = False"

subsection \<open>The smells of a payload (lines 147-155)\<close>

fun append_keys :: "string \<Rightarrow> string list \<Rightarrow> string list \<Rightarrow> string list" where
  "append_keys ty [] smells = smells"
| "append_keys ty (key # keys) smells = append_keys ty keys (smells @ [filepath_Join [ty, key]])"

fun append_results :: "analysisResult list \<Rightarrow> string list \<Rightarrow> string list" where
  "append_results [] smells = smells"
| "append_results (result # results) smells =
     append_results results (append_keys (Type result) (Keys result) smells)"

text \<open>The lines that the same two loops write to the \<open>sanity\<close> logger.\<close>

definition sanity_lines :: "string \<Rightarrow> analysisResult list \<Rightarrow> event list" where
  "sanity_lines uuid results =
     concat (map (\<lambda>result.
        map (\<lambda>key. Sanity_Printf ''%s : %s - %s\<newline>'' [S uuid, S (Type result), S key])
          (Keys result)) results)"

subsection \<open>The shuffle (lines 157-161)\<close>

text \<open>
  The Go loop is

  \<^verbatim>\<open>for i := range smells {
      j := rand.Intn(i + 1)
      smells[i], smells[j] = smells[j], smells[i]
  }\<close>

  The tuple assignment reads both right-hand sides first and then stores into index \<open>i\<close>
  and into index \<open>j\<close>, in that order.
\<close>

definition swap :: "nat \<Rightarrow> nat \<Rightarrow> 'a list \<Rightarrow> 'a list" where
  "swap i j xs = xs[i := xs ! j, j := xs ! i]"

text \<open>
  \<open>rand.Intn n\<close> returns a number in \<open>[0, n)\<close>: the raw number of the source, reduced
  into the range the library promises. The loop calls it with \<open>i + 1\<close>, never with 0.
\<close>

definition Intn :: "nat \<Rightarrow> nat \<Rightarrow> nat" where
  "Intn raw n = raw mod n"

definition shuffle :: "(nat \<Rightarrow> nat) \<Rightarrow> 'a list \<Rightarrow> 'a list" where
  "shuffle draw smells =
     fold (\<lambda>i s. swap i (Intn (draw i) (i + 1)) s) [0..<length smells] smells"

text \<open>
  The pass as the specification words it: "iterate the index i from the second element
  to the last, drawing a uniformly random index j in [0, i], and swapping elements at i
  and j".
\<close>

definition shuffle_spec :: "(nat \<Rightarrow> nat) \<Rightarrow> 'a list \<Rightarrow> 'a list" where
  "shuffle_spec draw smells =
     fold (\<lambda>i s. swap i (Intn (draw i) (i + 1)) s) [1..<length smells] smells"

text \<open>The same swaps over any list of indices; the shuffle runs them over all of them.\<close>

definition pass :: "(nat \<Rightarrow> nat) \<Rightarrow> nat list \<Rightarrow> 'a list \<Rightarrow> 'a list" where
  "pass draw is xs = fold (\<lambda>i s. swap i (Intn (draw i) (i + 1)) s) is xs"

text \<open>
  The sequences of draws that \<open>n\<close> iterations can see: one draw for each index, the
  draw for index \<open>i\<close> in \<open>[0, i]\<close>.
\<close>

definition valid_draws :: "nat \<Rightarrow> nat list \<Rightarrow> bool" where
  "valid_draws n js = (length js = n \<and> (\<forall>i \<in> {0..<n}. js ! i \<le> i))"

subsection \<open>The first available comment (lines 163-172)\<close>

text \<open>Indexing a Go map: a key that is not there gives the nil slice, of length 0.\<close>

definition map_index :: "(string \<rightharpoonup> bytes) \<Rightarrow> string \<Rightarrow> bytes" where
  "map_index m k = (case m k of None \<Rightarrow> [] | Some b \<Rightarrow> b)"

fun first_comment :: "(string \<rightharpoonup> bytes) \<Rightarrow> string list \<Rightarrow> bytes" where
  "first_comment cmts [] = []"
| "first_comment cmts (smell # smells) =
     (let b = map_index cmts smell
      in if length b > 0 then b else first_comment cmts smells)"

text \<open>Lines 147-172 together: the comment that the job selects, nil when there is none.\<close>

definition select_comment :: "(string \<rightharpoonup> bytes) \<Rightarrow> (nat \<Rightarrow> nat) \<Rightarrow> analysisResult list \<Rightarrow> bytes" where
  "select_comment cmts draw results =
     first_comment cmts (shuffle draw (append_results results []))"

subsection \<open>The job\<close>

text \<open>Lines 174-181.\<close>

definition publish :: "Analyzer \<Rightarrow> string \<Rightarrow> bytes \<Rightarrow> event list" where
  "publish analyzer uuid comment =
     (if length comment = 0 then []
      else Call_SubmitComment comment uuid #
        (case SubmitComment (exercism analyzer) comment uuid of
           Some e \<Rightarrow> [Lgr_Printf ''%s\<newline>'' [E e]]
         | None \<Rightarrow> []))"

text \<open>Lines 137-181: what the job does with a parsed payload.\<close>

definition respond :: "Analyzer \<Rightarrow> world \<Rightarrow> string \<Rightarrow> analysisPayload \<Rightarrow> event list" where
  "respond analyzer w uuid ap =
     (if Error ap \<noteq> [] then
        [Lgr_Printf ''analysis api is complaining about %s - %s\<newline>'' [S uuid, S (Error ap)]]
      else if length (Results ap) = 0 then []
      else sanity_lines uuid (Results ap) @
           publish analyzer uuid
             (select_comment (comments analyzer) (rand_source w) (Results ap)))"

text \<open>
  Lines 73-135: from the message to the parsed payload. The result is the trace so far
  and, when the job goes on, the submission key and the payload.
\<close>

definition fetch_and_analyze ::
  "Analyzer \<Rightarrow> world \<Rightarrow> Msg \<Rightarrow> event list \<times> (string \<times> analysisPayload) option" where
  "fetch_and_analyze analyzer w msg =
     (case Json_String (GetIndex (Args msg) 0) of
        Inl e \<Rightarrow> ([Lgr_Printf ''unable to determine submission key - %s\<newline>'' [E e]], None)
      | Inr uuid \<Rightarrow>
     (case FetchSolution (exercism analyzer) uuid of
        Inl e \<Rightarrow> ([Call_FetchSolution uuid, Lgr_Printf ''%s\<newline>'' [E e]], None)
      | Inr solution \<Rightarrow>
     if TrackID solution \<noteq> ''ruby'' then
       ([Call_FetchSolution uuid,
         Lgr_Printf ''skipping - rikki- doesn't support %s\<newline>'' [S (TrackID solution)]], None)
     else
     let sources = map snd (range_Files w (Files solution));
         url = analysseurHost analyzer @ ''/analyze/'' @ TrackID solution;
         codeBody = \<lparr>Code = strings_Join sources ''\<newline>''\<rparr>
     in
     (case json_Marshal w codeBody of
        Inl e \<Rightarrow> ([Call_FetchSolution uuid, Lgr_Printf ''%s - %s\<newline>'' [S uuid, E e]], None)
      | Inr codeBodyJSON \<Rightarrow>
     (case http_NewRequest w ''POST'' url codeBodyJSON of
        Some e \<Rightarrow>
          ([Call_FetchSolution uuid,
            Lgr_Printf ''%s - cannot prepare request to %s - %s\<newline>'' [S uuid, S url, E e]], None)
      | None \<Rightarrow>
     let req = \<lparr>Method = ''POST'', URL = url, ReqBody = codeBodyJSON\<rparr>
     in
     (case http_Do w req of
        Inl e \<Rightarrow>
          ([Call_FetchSolution uuid, Call_Do req,
            Lgr_Printf ''%s - request to %s failed - %s\<newline>'' [S uuid, S url, E e]], None)
      | Inr resp \<Rightarrow>
     (case Body resp of
        Inl e \<Rightarrow>
          ([Call_FetchSolution uuid, Call_Do req,
            Lgr_Printf ''%s - failed to fetch submission - %s\<newline>'' [S uuid, E e]], None)
      | Inr body \<Rightarrow>
     if StatusCode resp \<noteq> 200 then
       ([Call_FetchSolution uuid, Call_Do req,
         Lgr_Printf ''%s - %s responded with status %d - %s\<newline>''
           [S uuid, S url, N (StatusCode resp), S body]], None)
     else
     (case json_Unmarshal w body of
        Inl e \<Rightarrow>
          ([Call_FetchSolution uuid, Call_Do req, Lgr_Printf ''%s - %s\<newline>'' [S uuid, E e]], None)
      | Inr ap \<Rightarrow> ([Call_FetchSolution uuid, Call_Do req], Some (uuid, ap)))))))))"

definition process :: "Analyzer \<Rightarrow> world \<Rightarrow> Msg \<Rightarrow> event list" where
  "process analyzer w msg =
     (case fetch_and_analyze analyzer w msg of
        (trace, None) \<Rightarrow> trace
      | (trace, Some (uuid, ap)) \<Rightarrow> trace @ respond analyzer w uuid ap)"

section \<open>Notions used by the properties\<close>

text \<open>A plain path element: not empty, without a separator, and neither \<open>.\<close> nor \<open>..\<close>.\<close>

definition plain_elem :: "string \<Rightarrow> bool" where
  "plain_elem e = (e \<noteq> [] \<and> CHR ''/'' \<notin> set e \<and> e \<noteq> ''.'' \<and> e \<noteq> ''..'')"

text \<open>
  The selection as claim C1 words it: the content of the first identifier of the
  sequence that is present in the corpus, none when no identifier is present.
\<close>

definition spec_select :: "(string \<rightharpoonup> bytes) \<Rightarrow> string list \<Rightarrow> bytes option" where
  "spec_select cmts smells =
     (case find (\<lambda>s. cmts s \<noteq> None) smells of None \<Rightarrow> None | Some s \<Rightarrow> cmts s)"

text \<open>A silent job, as claim C6 words the skip: it writes no line to a logger.\<close>

definition silent :: "event list \<Rightarrow> bool" where
  "silent trace = (filter is_log trace = [])"

text \<open>
  The code blob as claim C9 words it: the contents of the files in the order in which
  the submission gives them, separated by a single line break.
\<close>

definition spec_code_blob :: "solution \<Rightarrow> string" where
  "spec_code_blob sol = strings_Join (map snd (Files sol)) ''\<newline>''"

text \<open>The key that lines 43-45 compute for the file at \<open>path\<close>.\<close>

definition corpus_key :: "string \<Rightarrow> string \<Rightarrow> string" where
  "corpus_key dir path = strings_TrimLeft (Replacer_Replace [(dir, []), (''.md'', [])] path) ''/''"

text \<open>
  The entries that the regular files among the calls of a walk contribute, in the order
  of the walk: the key of the file and its content.
\<close>

fun file_entries :: "string \<Rightarrow> (string \<times> fsnode) list \<Rightarrow> (string \<times> bytes) list" where
  "file_entries dir [] = []"
| "file_entries dir ((path, File (Inr b)) # rest) = (corpus_key dir path, b) # file_entries dir rest"
| "file_entries dir ((path, File (Inl e)) # rest) = file_entries dir rest"
| "file_entries dir ((path, Dir names) # rest) = file_entries dir rest"

text \<open>Every regular file among the calls can be read.\<close>

fun all_readable :: "(string \<times> fsnode) list \<Rightarrow> bool" where
  "all_readable [] = True"
| "all_readable ((path, File (Inl e)) # rest) = False"
| "all_readable ((path, File (Inr b)) # rest) = all_readable rest"
| "all_readable ((path, Dir names) # rest) = all_readable rest"

text \<open>
  The key as claim C2 words it: the path with the root prefix removed, any leading
  separator trimmed, and the trailing file extension (from the last dot of the last
  element) removed.
\<close>

definition strip_ext :: "string \<Rightarrow> string" where
  "strip_ext s =
     (let n = length (takeWhile (\<lambda>c. c \<noteq> CHR ''.'' \<and> c \<noteq> CHR ''/'') (rev s))
      in if n < length s \<and> rev s ! n = CHR ''.'' then take (length s - n - 1) s else s)"

definition spec_key :: "string \<Rightarrow> string \<Rightarrow> string" where
  "spec_key root path = strip_ext (dropWhile (\<lambda>c. c = CHR ''/'') (drop (length root) path))"

section \<open>Example values\<close>

text \<open>
  The end-to-end example of the specification: submission \<open>abc123\<close> with the one file
  \<open>solution.src\<close>, a corpus with one comment, an analysis service that answers with a
  given payload, a platform that accepts the comment, a runtime that visits the files
  in the order of the submission and draws that swap nothing.
\<close>

definition example_solution :: "string \<Rightarrow> solution" where
  "example_solution track = \<lparr>TrackID = track, Files = [(''solution.src'', ''code'')]\<rparr>"

definition example_exercism :: "solution \<Rightarrow> Exercism" where
  "example_exercism sol = \<lparr>FetchSolution = (\<lambda>id. Inr sol), SubmitComment = (\<lambda>c id. None)\<rparr>"

definition example_corpus :: "string \<rightharpoonup> bytes" where
  "example_corpus = [''smell/unused_variable'' \<mapsto> ''Consider removing unused variables.'']"

definition example_analyzer :: "solution \<Rightarrow> Analyzer" where
  "example_analyzer sol =
     \<lparr>exercism = example_exercism sol, analysseurHost = ''http://analysseur'',
      comments = example_corpus\<rparr>"

definition example_world :: "analysisPayload \<Rightarrow> world" where
  "example_world ap =
     \<lparr>json_Marshal = (\<lambda>body. Inr (Code body)),
      http_NewRequest = (\<lambda>method url body. None),
      http_Do = (\<lambda>req. Inr \<lparr>StatusCode = 200, Body = Inr ''{}''\<rparr>),
      json_Unmarshal = (\<lambda>b. Inr ap),
      rand_source = id,
      range_Files = (\<lambda>files. files)\<rparr>"

definition example_payload :: "string \<Rightarrow> analysisPayload" where
  "example_payload e = \<lparr>Results = [\<lparr>Type = ''smell'', Keys = [''unused_variable'']\<rparr>], Error = e\<rparr>"

definition example_msg :: "json list \<Rightarrow> Msg" where
  "example_msg args = \<lparr>Args = JArray args\<rparr>"

chapter \<open>Properties\<close>

section \<open>Library functions\<close>

lemma strings_Join_Cons: "strings_Join (c # cs) sep = c @ concat (map ((@) sep) cs)"
  by (induction cs arbitrary: c) simp_all

lemma strings_Join_concat:
  "strings_Join xs sep = (case xs of [] \<Rightarrow> [] | c # cs \<Rightarrow> c @ concat (map ((@) sep) cs))"
  by (cases xs) (simp_all add: strings_Join_Cons)

lemma split_on_no_sep: "sep \<notin> set s \<Longrightarrow> split_on sep s = [s]"
  by (induction s) auto

lemma split_on_append: "sep \<notin> set s \<Longrightarrow> split_on sep (s @ sep # r) = s # split_on sep r"
  by (induction s) auto

lemma filepath_Join_plain:
  assumes "plain_elem t" "plain_elem k"
  shows "filepath_Join [t, k] = t @ ''/'' @ k"
proof -
  from assms have t: "t \<noteq> []" "CHR ''/'' \<notin> set t" "t \<noteq> ''.''" "t \<noteq> ''..''"
    and k: "k \<noteq> []" "CHR ''/'' \<notin> set k" "k \<noteq> ''.''" "k \<noteq> ''..''"
    by (simp_all add: plain_elem_def)
  have sp: "split_on CHR ''/'' (t @ CHR ''/'' # k) = [t, k]"
    using t k by (simp add: split_on_append split_on_no_sep)
  have hd: "hd (t @ CHR ''/'' # k) \<noteq> CHR ''/''"
    using t by (cases t) auto
  have "filepath_Clean (t @ CHR ''/'' # k) = t @ CHR ''/'' # k"
    using t k hd by (simp add: filepath_Clean_def sp clean_elem_def Let_def)
  then show ?thesis
    using t by (simp add: filepath_Join_def)
qed

lemma first_arg_string:
  "Json_String (GetIndex j 0) = Inr u \<longleftrightarrow> (\<exists>rest. j = JArray (JString u # rest))"
proof (cases j)
  case (JArray a)
  show ?thesis
  proof (cases a)
    case Nil
    with JArray show ?thesis by (simp add: Json_String_def GetIndex_def)
  next
    case (Cons x rest)
    with JArray show ?thesis by (cases x) (simp_all add: Json_String_def GetIndex_def)
  qed
qed (simp_all add: Json_String_def GetIndex_def)

lemma first_arg_not_string:
  "(\<forall>s rest. j \<noteq> JArray (JString s # rest)) \<Longrightarrow>
   Json_String (GetIndex j 0) = Inl (Err ''type assertion to string failed'')"
proof -
  assume a: "\<forall>s rest. j \<noteq> JArray (JString s # rest)"
  have "\<And>u. Json_String (GetIndex j 0) \<noteq> Inr u"
    using a by (simp add: first_arg_string)
  moreover have "\<And>e. Json_String (GetIndex j 0) = Inl e \<Longrightarrow> e = Err ''type assertion to string failed''"
    by (auto simp: Json_String_def split: json.splits)
  ultimately show ?thesis
    by (cases "Json_String (GetIndex j 0)") auto
qed

lemma prefix_drop_sublist: "prefix xs (drop k ys) \<Longrightarrow> sublist xs ys"
proof -
  assume "prefix xs (drop k ys)"
  then obtain zs where "drop k ys = xs @ zs" by (auto simp: prefix_def)
  then have "ys = take k ys @ xs @ zs" by (metis append_take_drop_id)
  then show ?thesis unfolding sublist_def by blast
qed

lemma Replace_no_match:
  assumes "\<forall>k<length s. \<forall>(old, new) \<in> set oldnew. \<not> prefix old (drop k (s @ t))"
  shows "Replacer_Replace oldnew (s @ t) = s @ Replacer_Replace oldnew t"
  using assms
proof (induction s)
  case Nil
  then show ?case by simp
next
  case (Cons c s)
  have "\<forall>(old, new) \<in> set oldnew. \<not> prefix old (c # s @ t)"
    using Cons.prems by (auto dest!: spec [of _ 0])
  then have "find (\<lambda>(old, new). old \<noteq> [] \<and> prefix old (c # s @ t)) oldnew = None"
    by (auto simp: find_None_iff)
  moreover have "\<forall>k<length s. \<forall>(old, new) \<in> set oldnew. \<not> prefix old (drop k (s @ t))"
  proof (intro allI impI)
    fix k assume "k < length s"
    then have "Suc k < length (c # s)" by simp
    with Cons.prems have "\<forall>(old, new) \<in> set oldnew. \<not> prefix old (drop (Suc k) ((c # s) @ t))"
      by blast
    then show "\<forall>(old, new) \<in> set oldnew. \<not> prefix old (drop k (s @ t))" by simp
  qed
  ultimately show ?case using Cons.IH by simp
qed

lemma find_unique:
  assumes "s \<in> set xs" "P s" "\<forall>t \<in> set xs. t \<noteq> s \<longrightarrow> \<not> P t"
  shows "find P xs = Some s"
  using assms by (induction xs) auto

lemma find_none: "\<forall>t \<in> set xs. \<not> P t \<Longrightarrow> find P xs = None"
  by (induction xs) auto

section \<open>The shuffle\<close>

lemma swap_same: "swap i i xs = xs"
  by (simp add: swap_def)

lemma Intn_one: "Intn raw (Suc 0) = 0"
  by (simp add: Intn_def)

lemma length_swap [simp]: "length (swap i j xs) = length xs"
  by (simp add: swap_def)

lemma nth_swap:
  "i < length xs \<Longrightarrow> j < length xs \<Longrightarrow>
   swap i j xs ! k = (if k = j then xs ! i else if k = i then xs ! j else xs ! k)"
  by (auto simp: swap_def nth_list_update)

lemma swap_swap: "i < length xs \<Longrightarrow> j < length xs \<Longrightarrow> swap i j (swap i j xs) = xs"
  by (rule nth_equalityI) (auto simp: nth_swap)

lemma mset_swap: "i < length xs \<Longrightarrow> j < length xs \<Longrightarrow> mset (swap i j xs) = mset xs"
  by (simp add: swap_def mset_update nth_list_update)

lemma map_swap: "i < length xs \<Longrightarrow> j < length xs \<Longrightarrow> map f (swap i j xs) = swap i j (map f xs)"
  by (simp add: swap_def map_update)

lemma swap_append: "i < length xs \<Longrightarrow> j < length xs \<Longrightarrow> swap i j (xs @ ys) = swap i j xs @ ys"
  by (simp add: swap_def list_update_append nth_append)

lemma Intn_less: "0 < n \<Longrightarrow> Intn raw n < n"
  by (simp add: Intn_def)

lemma Intn_id: "raw < n \<Longrightarrow> Intn raw n = raw"
  by (simp add: Intn_def)

lemma length_pass [simp]: "length (pass draw is xs) = length xs"
  by (induction "is" arbitrary: xs) (simp_all add: pass_def)

lemma pass_append:
  "\<forall>i\<in>set is. i < length xs \<Longrightarrow> pass draw is (xs @ ys) = pass draw is xs @ ys"
proof (induction "is" arbitrary: xs)
  case Nil
  then show ?case by (simp add: pass_def)
next
  case (Cons i "is")
  have j: "Intn (draw i) (i + 1) < length xs"
    using Cons.prems Intn_less [of "i + 1" "draw i"] by simp
  have "pass draw (i # is) (xs @ ys) = pass draw is (swap i (Intn (draw i) (i + 1)) xs @ ys)"
    using Cons.prems j by (simp add: pass_def swap_append)
  also have "\<dots> = pass draw is (swap i (Intn (draw i) (i + 1)) xs) @ ys"
    using Cons.prems by (intro Cons.IH) simp
  finally show ?case by (simp add: pass_def)
qed

lemma pass_map:
  "\<forall>i\<in>set is. i < length xs \<Longrightarrow> pass draw is (map f xs) = map f (pass draw is xs)"
proof (induction "is" arbitrary: xs)
  case Nil
  then show ?case by (simp add: pass_def)
next
  case (Cons i "is")
  have j: "Intn (draw i) (i + 1) < length xs"
    using Cons.prems Intn_less [of "i + 1" "draw i"] by simp
  have "pass draw (i # is) (map f xs) = pass draw is (map f (swap i (Intn (draw i) (i + 1)) xs))"
    using Cons.prems j by (simp add: pass_def map_swap)
  also have "\<dots> = map f (pass draw is (swap i (Intn (draw i) (i + 1)) xs))"
    using Cons.prems by (intro Cons.IH) simp
  finally show ?case by (simp add: pass_def)
qed

lemma mset_pass:
  "\<forall>i\<in>set is. i < length xs \<Longrightarrow> mset (pass draw is xs) = mset xs"
proof (induction "is" arbitrary: xs)
  case Nil
  then show ?case by (simp add: pass_def)
next
  case (Cons i "is")
  have j: "Intn (draw i) (i + 1) < length xs"
    using Cons.prems Intn_less [of "i + 1" "draw i"] by simp
  have "mset (pass draw (i # is) xs) = mset (pass draw is (swap i (Intn (draw i) (i + 1)) xs))"
    by (simp add: pass_def)
  also have "\<dots> = mset (swap i (Intn (draw i) (i + 1)) xs)"
    using Cons.prems by (intro Cons.IH) simp
  finally show ?case using Cons.prems j by (simp add: mset_swap)
qed

lemma pass_cong: "\<forall>i\<in>set is. d i = e i \<Longrightarrow> pass d is xs = pass e is xs"
  unfolding pass_def by (rule fold_cong) auto

lemma shuffle_pass: "shuffle draw xs = pass draw [0..<length xs] xs"
  by (simp add: shuffle_def pass_def)

lemma mset_shuffle: "mset (shuffle draw xs) = mset xs"
  by (simp add: shuffle_pass mset_pass)

lemma set_shuffle: "set (shuffle draw xs) = set xs"
  by (metis mset_shuffle set_mset_mset)

lemma shuffle_single: "shuffle draw [x] = [x]"
  by (simp add: shuffle_def Intn_one swap_same)

lemma shuffle_map: "shuffle draw (map f xs) = map f (shuffle draw xs)"
  by (simp add: shuffle_pass pass_map)

lemma shuffle_by_positions: "shuffle draw xs = map ((!) xs) (shuffle draw [0..<length xs])"
proof -
  have "shuffle draw xs = shuffle draw (map ((!) xs) [0..<length xs])"
    by (simp add: map_nth)
  then show ?thesis by (simp only: shuffle_map)
qed

lemma shuffle_upt_Suc:
  "shuffle draw [0..<Suc n] = swap n (Intn (draw n) (Suc n)) (shuffle draw [0..<n] @ [n])"
proof -
  have "shuffle draw [0..<Suc n] = pass draw ([0..<n] @ [n]) ([0..<n] @ [n])"
    by (simp add: shuffle_pass)
  also have "\<dots> = pass draw [n] (pass draw [0..<n] ([0..<n] @ [n]))"
    by (simp add: pass_def)
  also have "pass draw [0..<n] ([0..<n] @ [n]) = pass draw [0..<n] [0..<n] @ [n]"
    by (rule pass_append) simp
  finally show ?thesis by (simp add: pass_def shuffle_pass)
qed

lemma valid_draws_iff: "valid_draws n js = (length js = n \<and> (\<forall>i<n. js ! i \<le> i))"
  by (auto simp: valid_draws_def)

lemma valid_draws_snoc:
  "valid_draws (Suc n) js \<longleftrightarrow> (\<exists>js' j. js = js' @ [j] \<and> valid_draws n js' \<and> j \<le> n)"
proof
  assume v: "valid_draws (Suc n) js"
  then have "js \<noteq> []" by (auto simp: valid_draws_iff)
  then obtain js' j where js: "js = js' @ [j]" by (metis rev_exhaust)
  with v have len: "length js' = n" by (simp add: valid_draws_iff)
  have "\<forall>i<n. js' ! i \<le> i"
  proof (intro allI impI)
    fix i assume "i < n"
    with v js len show "js' ! i \<le> i"
      by (auto simp: valid_draws_iff nth_append dest!: spec [of _ i])
  qed
  moreover have "j \<le> n"
    using v js len by (auto simp: valid_draws_iff nth_append dest!: spec [of _ n])
  ultimately show "\<exists>js' j. js = js' @ [j] \<and> valid_draws n js' \<and> j \<le> n"
    using js len by (auto simp: valid_draws_iff)
next
  assume "\<exists>js' j. js = js' @ [j] \<and> valid_draws n js' \<and> j \<le> n"
  then show "valid_draws (Suc n) js"
    by (auto simp: valid_draws_iff nth_append less_Suc_eq)
qed

lemma shuffle_snoc:
  assumes "length js = n" "j \<le> n"
  shows "shuffle ((!) (js @ [j])) [0..<Suc n] = swap n j (shuffle ((!) js) [0..<n] @ [n])"
proof -
  have "shuffle ((!) (js @ [j])) [0..<n] = shuffle ((!) js) [0..<n]"
    unfolding shuffle_pass using assms by (intro pass_cong) (simp add: nth_append)
  moreover have "Intn ((js @ [j]) ! n) (Suc n) = j"
    using assms by (simp add: Intn_id nth_append)
  ultimately show ?thesis
    by (simp only: shuffle_upt_Suc)
qed

lemma perm_upt_distinct: "mset p = mset [0..<n] \<Longrightarrow> distinct p \<and> set p = {0..<n} \<and> length p = n"
  by (metis mset_eq_imp_distinct_iff distinct_upt mset_eq_setD set_upt mset_eq_length length_upt
      diff_zero)

lemma shuffle_bijective:
  "mset p = mset [0..<n] \<Longrightarrow> \<exists>!js. valid_draws n js \<and> shuffle ((!) js) [0..<n] = p"
proof (induction n arbitrary: p)
  case 0
  then show ?case by (auto simp: valid_draws_iff shuffle_def)
next
  case (Suc n)
  from perm_upt_distinct [OF Suc.prems]
  have dp: "distinct p" and sp: "set p = {0..<Suc n}" and lp: "length p = Suc n" by simp_all
  from sp have "n \<in> set p" by simp
  then obtain j where j: "j < Suc n" "p ! j = n" using lp by (auto simp: in_set_conv_nth)
  define q where "q = swap n j p"
  have lq: "length q = Suc n" by (simp add: q_def lp)
  have qn: "q ! n = n" using j lp by (simp add: q_def nth_swap)
  have msq: "mset q = mset [0..<Suc n]"
    using j lp Suc.prems by (simp add: q_def mset_swap)
  have qsplit: "q = butlast q @ [n]"
    using lq qn by (metis append_butlast_last_id last_conv_nth length_0_conv nat.distinct(1)
        diff_Suc_1)
  have "mset (butlast q) + {#n#} = mset [0..<n] + {#n#}"
    using msq qsplit by (metis mset.simps(2) mset_append upt_Suc_append zero_le mset.simps(1)
        add_mset_add_single union_mset_add_mset_right)
  then have msb: "mset (butlast q) = mset [0..<n]" by simp
  from Suc.IH [OF msb] obtain js' where
    js': "valid_draws n js'" "shuffle ((!) js') [0..<n] = butlast q"
    and uniq: "\<And>ks. valid_draws n ks \<Longrightarrow> shuffle ((!) ks) [0..<n] = butlast q \<Longrightarrow> ks = js'"
    by blast
  have len': "length js' = n" using js' by (simp add: valid_draws_iff)
  have undo: "swap n j q = p"
    using j lp by (simp add: q_def swap_swap)
  show ?case
  proof (rule ex1I [of _ "js' @ [j]"])
    have "shuffle ((!) (js' @ [j])) [0..<Suc n] = swap n j (butlast q @ [n])"
      using len' j js' by (simp add: shuffle_snoc del: upt_Suc)
    also have "\<dots> = p" using qsplit undo by simp
    finally show "valid_draws (Suc n) (js' @ [j]) \<and> shuffle ((!) (js' @ [j])) [0..<Suc n] = p"
      using js' j by (auto simp: valid_draws_snoc)
  next
    fix ks
    assume ks: "valid_draws (Suc n) ks \<and> shuffle ((!) ks) [0..<Suc n] = p"
    then obtain ks' k where k: "ks = ks' @ [k]" "valid_draws n ks'" "k \<le> n"
      by (auto simp: valid_draws_snoc)
    have lk: "length ks' = n" using k by (simp add: valid_draws_iff)
    define A where "A = shuffle ((!) ks') [0..<n]"
    have lA: "length A = n" by (simp add: A_def shuffle_pass)
    have p_eq: "p = swap n k (A @ [n])"
      using ks k lk by (simp add: shuffle_snoc A_def del: upt_Suc)
    have "p ! k = n"
      using k lA by (simp add: p_eq nth_swap nth_append)
    with j dp lp k have kj: "k = j"
      by (metis nth_eq_iff_index_eq le_imp_less_Suc)
    have "swap n k p = A @ [n]"
      using k lA by (simp add: p_eq swap_swap)
    then have "q = A @ [n]" by (simp add: q_def kj)
    then have "butlast q = A" by simp
    then have "ks' = js'" using uniq k by (simp add: A_def)
    then show "ks = js' @ [j]" using k kj by simp
  qed
qed

text \<open>
  Claim C10. The loop of the code, which starts at index 0, and the loop of the
  specification, which starts at the second element, compute the same list for every
  input and every randomness source: the first iteration draws \<open>Intn 1 = 0\<close> and swaps
  index 0 with itself.
\<close>

theorem shuffle_refines_spec: "shuffle draw smells = shuffle_spec draw smells"
proof (cases smells)
  case Nil
  then show ?thesis by (simp add: shuffle_def shuffle_spec_def)
next
  case (Cons x xs)
  then have "[0..<length smells] = 0 # [1..<length smells]"
    by (simp add: upt_rec)
  then show ?thesis
    by (simp add: shuffle_def shuffle_spec_def Intn_one swap_same)
qed

text \<open>
  Claim C5. The shuffle rearranges the list by a permutation of its positions, the one
  it produces on \<open>[0..<n]\<close>, and the map from the sequences of draws (one draw in
  \<open>[0, i]\<close> for each index \<open>i\<close>) to these permutations is a bijection: every
  permutation of the \<open>n\<close> positions is the result of exactly one sequence of draws. So
  a uniform source gives every permutation the same probability.
\<close>

theorem shuffle_uniform:
  "shuffle draw xs = map ((!) xs) (shuffle draw [0..<length xs]) \<and>
   mset (shuffle draw [0..<length xs]) = mset [0..<length xs] \<and>
   (mset p = mset [0..<n] \<longrightarrow>
      card {js. valid_draws n js \<and> shuffle ((!) js) [0..<n] = p} = 1)"
proof (intro conjI impI)
  show "shuffle draw xs = map ((!) xs) (shuffle draw [0..<length xs])"
    by (rule shuffle_by_positions)
next
  show "mset (shuffle draw [0..<length xs]) = mset [0..<length xs]"
    by (rule mset_shuffle)
next
  assume "mset p = mset [0..<n]"
  from shuffle_bijective [OF this] obtain js where
    "{ks. valid_draws n ks \<and> shuffle ((!) ks) [0..<n] = p} = {js}"
    by blast
  then show "card {js. valid_draws n js \<and> shuffle ((!) js) [0..<n] = p} = 1"
    by simp
qed

theorem shuffle_uniform_witness:
  "mset [2, 0, 1] = mset [0..<3] \<and>
   valid_draws 3 [0, 0, 0] \<and> shuffle ((!) [0, 0, 0]) [0..<3] = [2, 0, 1] \<and>
   shuffle ((!) [0, 0, 0]) ''abc'' = ''cab'' \<and>
   card {js. valid_draws 3 js \<and> shuffle ((!) js) [0..<3] = [2, 0, 1]} = 1"
proof -
  have p: "mset [2, 0, 1] = mset [0..<3]"
    by (simp add: upt_rec)
  have v: "valid_draws 3 [0, 0, 0]"
    by code_simp
  have s: "shuffle ((!) [0, 0, 0]) [0..<3] = [2, 0, 1]"
    by code_simp
  have t: "shuffle ((!) [0, 0, 0]) ''abc'' = ''cab''"
    by code_simp
  show ?thesis
    using shuffle_uniform [of "(!) [0, 0, 0]" "''abc''" "[2, 0, 1]" 3] p v s t by simp
qed

section \<open>The selection of a comment\<close>

lemma append_keys_eq:
  "append_keys ty keys smells = smells @ map (\<lambda>key. filepath_Join [ty, key]) keys"
  by (induction keys arbitrary: smells) simp_all

lemma append_results_eq:
  "append_results results smells =
     smells @ concat (map (\<lambda>r. map (\<lambda>key. filepath_Join [Type r, key]) (Keys r)) results)"
  by (induction results arbitrary: smells) (simp_all add: append_keys_eq)

lemma first_comment_find:
  "first_comment cmts smells =
     (case find (\<lambda>s. map_index cmts s \<noteq> []) smells of None \<Rightarrow> [] | Some s \<Rightarrow> map_index cmts s)"
  by (induction smells) (simp_all add: Let_def)

lemma first_comment_source:
  "first_comment cmts smells \<noteq> [] \<Longrightarrow>
   \<exists>s \<in> set smells. cmts s = Some (first_comment cmts smells)"
proof (induction smells)
  case Nil
  then show ?case by simp
next
  case (Cons s smells)
  show ?case
  proof (cases "map_index cmts s = []")
    case True
    with Cons show ?thesis by (auto simp: Let_def)
  next
    case False
    then have "cmts s = Some (map_index cmts s)"
      by (auto simp: map_index_def split: option.splits)
    with False show ?thesis by (simp add: Let_def)
  qed
qed

lemma select_comment_source:
  "select_comment cmts draw results \<noteq> [] \<Longrightarrow>
   \<exists>s \<in> set (append_results results []). cmts s = Some (select_comment cmts draw results)"
  unfolding select_comment_def
  by (drule first_comment_source) (simp add: set_shuffle)

lemma map_index_remove_empty: "m k = Some [] \<Longrightarrow> map_index (m(k := None)) = map_index m"
  by (rule ext) (simp add: map_index_def)

lemma first_comment_map_index:
  "map_index c1 = map_index c2 \<Longrightarrow> first_comment c1 smells = first_comment c2 smells"
  by (induction smells) (simp_all add: Let_def)

lemma select_comment_remove_empty:
  "m k = Some [] \<Longrightarrow> select_comment (m(k := None)) draw results = select_comment m draw results"
  unfolding select_comment_def
  by (rule first_comment_map_index) (rule map_index_remove_empty)

lemma example_smells:
  "append_results [\<lparr>Type = ''smell'', Keys = [''unused_variable'']\<rparr>] [] = [''smell/unused_variable'']"
  by code_simp

lemma example_select:
  "select_comment example_corpus draw [\<lparr>Type = ''smell'', Keys = [''unused_variable'']\<rparr>] =
     ''Consider removing unused variables.''"
  unfolding select_comment_def example_smells shuffle_single
  by (simp add: example_corpus_def map_index_def)

text \<open>
  Claim C1, as amended. The smells of a payload are, in encounter order,
  \<open>filepath.Join\<close> of each result's type with each of its keys, which is \<open>type/key\<close>
  when type and key are plain path elements (not empty, no separator, not \<open>.\<close> or
  \<open>..\<close>). The selection returns the content of the first smell of the shuffled
  sequence whose content in the corpus is not empty, and nil when there is none. So
  when exactly one of the smells has non-empty content in the corpus, that content is
  selected whatever the draws; when none has, no comment is selected and the job ends
  without a submission and without an error line.
\<close>

theorem select_first_nonempty:
  "append_results results [] =
     concat (map (\<lambda>r. map (\<lambda>key. filepath_Join [Type r, key]) (Keys r)) results) \<and>
   ((\<forall>r \<in> set results. plain_elem (Type r) \<and> (\<forall>key \<in> set (Keys r). plain_elem key)) \<longrightarrow>
      append_results results [] =
        concat (map (\<lambda>r. map (\<lambda>key. Type r @ ''/'' @ key) (Keys r)) results)) \<and>
   select_comment cmts draw results =
     (case find (\<lambda>s. map_index cmts s \<noteq> []) (shuffle draw (append_results results [])) of
        None \<Rightarrow> []
      | Some s \<Rightarrow> map_index cmts s) \<and>
   (s \<in> set (append_results results []) \<and> map_index cmts s \<noteq> [] \<and>
    (\<forall>t \<in> set (append_results results []). t \<noteq> s \<longrightarrow> map_index cmts t = []) \<longrightarrow>
      select_comment cmts draw results = map_index cmts s) \<and>
   ((\<forall>t \<in> set (append_results results []). map_index cmts t = []) \<longrightarrow>
      select_comment cmts draw results = [] \<and>
      publish A uuid (select_comment cmts draw results) = [])"
proof (intro conjI impI)
  show flat: "append_results results [] =
     concat (map (\<lambda>r. map (\<lambda>key. filepath_Join [Type r, key]) (Keys r)) results)"
    by (simp add: append_results_eq)
  show sel: "select_comment cmts draw results =
     (case find (\<lambda>s. map_index cmts s \<noteq> []) (shuffle draw (append_results results [])) of
        None \<Rightarrow> []
      | Some s \<Rightarrow> map_index cmts s)"
    by (simp add: select_comment_def first_comment_find)
  {
    assume p: "\<forall>r \<in> set results. plain_elem (Type r) \<and> (\<forall>key \<in> set (Keys r). plain_elem key)"
    have "map (\<lambda>r. map (\<lambda>key. filepath_Join [Type r, key]) (Keys r)) results =
          map (\<lambda>r. map (\<lambda>key. Type r @ ''/'' @ key) (Keys r)) results"
      using p by (intro map_cong refl) (simp add: filepath_Join_plain)
    then show "append_results results [] =
        concat (map (\<lambda>r. map (\<lambda>key. Type r @ ''/'' @ key) (Keys r)) results)"
      by (simp only: flat)
  }
  {
    assume "s \<in> set (append_results results []) \<and> map_index cmts s \<noteq> [] \<and>
      (\<forall>t \<in> set (append_results results []). t \<noteq> s \<longrightarrow> map_index cmts t = [])"
    then have "find (\<lambda>s. map_index cmts s \<noteq> []) (shuffle draw (append_results results [])) = Some s"
      by (intro find_unique) (auto simp: set_shuffle)
    then show "select_comment cmts draw results = map_index cmts s"
      by (simp add: sel)
  }
  {
    assume "\<forall>t \<in> set (append_results results []). map_index cmts t = []"
    then have "find (\<lambda>s. map_index cmts s \<noteq> []) (shuffle draw (append_results results [])) = None"
      by (intro find_none) (simp add: set_shuffle)
    then show none: "select_comment cmts draw results = []"
      by (simp add: sel)
    then show "publish A uuid (select_comment cmts draw results) = []"
      by (simp add: publish_def)
  }
qed

theorem select_first_nonempty_witness:
  "append_results [\<lparr>Type = ''smell'', Keys = [''unused_variable'', ''long_method'']\<rparr>] [] =
     [''smell/unused_variable'', ''smell/long_method''] \<and>
   map_index example_corpus ''smell/unused_variable'' = ''Consider removing unused variables.'' \<and>
   map_index example_corpus ''smell/long_method'' = [] \<and>
   select_comment example_corpus id
     [\<lparr>Type = ''smell'', Keys = [''unused_variable'', ''long_method'']\<rparr>] =
     ''Consider removing unused variables.'' \<and>
   select_comment example_corpus (\<lambda>i. 0)
     [\<lparr>Type = ''smell'', Keys = [''unused_variable'', ''long_method'']\<rparr>] =
     ''Consider removing unused variables.'' \<and>
   shuffle (\<lambda>i. 0) [''smell/unused_variable'', ''smell/long_method''] =
     [''smell/long_method'', ''smell/unused_variable''] \<and>
   select_comment Map.empty id
     [\<lparr>Type = ''smell'', Keys = [''unused_variable'', ''long_method'']\<rparr>] = [] \<and>
   publish (example_analyzer (example_solution ''ruby'')) ''abc123''
     (select_comment Map.empty id
        [\<lparr>Type = ''smell'', Keys = [''unused_variable'', ''long_method'']\<rparr>]) = []"
proof -
  let ?R = "[\<lparr>Type = ''smell'', Keys = [''unused_variable'', ''long_method'']\<rparr>]"
  let ?s = "''smell/unused_variable''"
  let ?A = "example_analyzer (example_solution ''ruby'')"
  have pl: "\<forall>r \<in> set ?R. plain_elem (Type r) \<and> (\<forall>key \<in> set (Keys r). plain_elem key)"
    by (simp add: plain_elem_def)
  from select_first_nonempty [of ?R example_corpus id ?s ?A "''abc123''"] pl
  have fl: "append_results ?R [] = [?s, ''smell/long_method'']"
    by simp
  have m1: "map_index example_corpus ?s = ''Consider removing unused variables.''"
    and m2: "map_index example_corpus ''smell/long_method'' = []"
    by (simp_all add: map_index_def example_corpus_def)
  have one: "?s \<in> set (append_results ?R []) \<and> map_index example_corpus ?s \<noteq> [] \<and>
      (\<forall>t \<in> set (append_results ?R []). t \<noteq> ?s \<longrightarrow> map_index example_corpus t = [])"
    unfolding fl by (simp add: m1 m2)
  have none: "\<forall>t \<in> set (append_results ?R []). map_index Map.empty t = []"
    by (simp add: map_index_def)
  have sh: "shuffle (\<lambda>i. 0) [?s, ''smell/long_method''] = [''smell/long_method'', ?s]"
    by code_simp
  from select_first_nonempty [of ?R example_corpus id ?s ?A "''abc123''"] one
  have s1: "select_comment example_corpus id ?R = map_index example_corpus ?s"
    by blast
  from select_first_nonempty [of ?R example_corpus "\<lambda>i. 0" ?s ?A "''abc123''"] one
  have s2: "select_comment example_corpus (\<lambda>i. 0) ?R = map_index example_corpus ?s"
    by blast
  from select_first_nonempty [of ?R Map.empty id ?s ?A "''abc123''"] none
  have s3: "select_comment Map.empty id ?R = [] \<and>
      publish ?A ''abc123'' (select_comment Map.empty id ?R) = []"
    by blast
  show ?thesis
    using fl m1 m2 s1 s2 s3 sh by (simp add: publish_def)
qed

text \<open>
  Claim C1 as stated fails: with the draws that swap nothing, the first smell of the
  sequence that is present in the corpus is \<open>smell/unused_variable\<close>, whose content is
  empty, and the selection returns the content of the next one.
\<close>

theorem select_first_present_counterexample:
  "spec_select [''smell/unused_variable'' \<mapsto> [],
                ''smell/long_method'' \<mapsto> ''Consider splitting long methods.'']
     (shuffle id (append_results [\<lparr>Type = ''smell'', Keys = [''unused_variable'', ''long_method'']\<rparr>] []))
     = Some [] \<and>
   select_comment [''smell/unused_variable'' \<mapsto> [],
                   ''smell/long_method'' \<mapsto> ''Consider splitting long methods.'']
     id [\<lparr>Type = ''smell'', Keys = [''unused_variable'', ''long_method'']\<rparr>]
     = ''Consider splitting long methods.''"
proof -
  have a: "append_results [\<lparr>Type = ''smell'', Keys = [''unused_variable'', ''long_method'']\<rparr>] [] =
      [''smell/unused_variable'', ''smell/long_method'']"
    by code_simp
  have s: "shuffle id [''smell/unused_variable'', ''smell/long_method''] =
      [''smell/unused_variable'', ''smell/long_method'']"
    by code_simp
  show ?thesis
    unfolding select_comment_def spec_select_def a s
    by (simp add: map_index_def)
qed

section \<open>The job\<close>

lemma fetch_and_analyze_no_submit:
  "filter is_submit (fst (fetch_and_analyze A w msg)) = []"
  by (simp add: fetch_and_analyze_def Let_def split: sum.splits option.splits)

lemma fetch_and_analyze_Some:
  assumes "fetch_and_analyze A w msg = (trace, Some (uuid, ap))"
  shows "\<exists>sol codeBodyJSON resp b.
           Json_String (GetIndex (Args msg) 0) = Inr uuid \<and>
           FetchSolution (exercism A) uuid = Inr sol \<and> TrackID sol = ''ruby'' \<and>
           json_Marshal w \<lparr>Code = strings_Join (map snd (range_Files w (Files sol))) ''\<newline>''\<rparr> = Inr codeBodyJSON \<and>
           http_Do w \<lparr>Method = ''POST'', URL = analysseurHost A @ ''/analyze/'' @ TrackID sol,
                      ReqBody = codeBodyJSON\<rparr> = Inr resp \<and>
           Body resp = Inr b \<and> StatusCode resp = 200 \<and> json_Unmarshal w b = Inr ap \<and>
           trace = [Call_FetchSolution uuid,
                    Call_Do \<lparr>Method = ''POST'', URL = analysseurHost A @ ''/analyze/'' @ TrackID sol,
                      ReqBody = codeBodyJSON\<rparr>]"
  using assms
  by (auto simp: fetch_and_analyze_def Let_def split: sum.splits option.splits if_splits)

lemma fetch_and_analyze_Do:
  assumes "Call_Do req \<in> set (fst (fetch_and_analyze A w msg))"
  shows "\<exists>uuid sol.
           Json_String (GetIndex (Args msg) 0) = Inr uuid \<and>
           FetchSolution (exercism A) uuid = Inr sol \<and> TrackID sol = ''ruby'' \<and>
           json_Marshal w \<lparr>Code = strings_Join (map snd (range_Files w (Files sol))) ''\<newline>''\<rparr> = Inr (ReqBody req) \<and>
           URL req = analysseurHost A @ ''/analyze/ruby'' \<and> Method req = ''POST''"
  using assms
  by (auto simp: fetch_and_analyze_def Let_def split: sum.splits option.splits if_splits)

lemma request_is_sent:
  assumes "Args msg = JArray (JString uuid # rest)"
    and "FetchSolution (exercism A) uuid = Inr sol" and "TrackID sol = ''ruby''"
    and "json_Marshal w \<lparr>Code = strings_Join (map snd (range_Files w (Files sol))) ''\<newline>''\<rparr> = Inr body"
    and "http_NewRequest w ''POST'' (analysseurHost A @ ''/analyze/ruby'') body = None"
  shows "Call_Do \<lparr>Method = ''POST'', URL = analysseurHost A @ ''/analyze/ruby'', ReqBody = body\<rparr>
           \<in> set (fst (fetch_and_analyze A w msg))"
proof -
  have "Json_String (GetIndex (Args msg) 0) = Inr uuid"
    using assms(1) by (simp add: first_arg_string)
  then show ?thesis
    using assms(2-5)
    by (simp add: fetch_and_analyze_def Let_def split: sum.splits)
qed

lemma fetch_and_analyze_comments:
  "fetch_and_analyze (A\<lparr>comments := m\<rparr>) w msg = fetch_and_analyze A w msg"
proof -
  have "exercism (A\<lparr>comments := m\<rparr>) = exercism A"
    and "analysseurHost (A\<lparr>comments := m\<rparr>) = analysseurHost A"
    by simp_all
  then show ?thesis
    unfolding fetch_and_analyze_def by (simp only:)
qed

lemma process_split:
  "process A w msg =
     fst (fetch_and_analyze A w msg) @
     (case snd (fetch_and_analyze A w msg) of None \<Rightarrow> [] | Some (uuid, ap) \<Rightarrow> respond A w uuid ap)"
  by (simp add: process_def split: prod.splits option.splits)

lemma submit_sanity_lines: "filter is_submit (sanity_lines uuid results) = []"
  by (induction results) (simp_all add: sanity_lines_def filter_concat comp_def)

lemma analyze_sanity_lines: "filter is_analyze (sanity_lines uuid results) = []"
  by (induction results) (simp_all add: sanity_lines_def filter_concat comp_def)

lemma submit_publish:
  "filter is_submit (publish A uuid c) = (if c = [] then [] else [Call_SubmitComment c uuid])"
  by (simp add: publish_def split: option.splits)

lemma submit_respond:
  "filter is_submit (respond A w uuid ap) =
     (if Error ap = [] \<and> Results ap \<noteq> [] \<and>
         select_comment (comments A) (rand_source w) (Results ap) \<noteq> []
      then [Call_SubmitComment (select_comment (comments A) (rand_source w) (Results ap)) uuid]
      else [])"
  by (simp add: respond_def submit_sanity_lines submit_publish)

lemma analyze_respond: "filter is_analyze (respond A w uuid ap) = []"
  by (simp add: respond_def analyze_sanity_lines publish_def split: option.splits)

lemma respond_remove_empty:
  "comments A k = Some [] \<Longrightarrow>
   respond (A\<lparr>comments := (comments A)(k := None)\<rparr>) w uuid ap = respond A w uuid ap"
  by (simp add: respond_def publish_def select_comment_remove_empty)

lemma submit_process:
  "filter is_submit (process A w msg) =
     (case snd (fetch_and_analyze A w msg) of
        None \<Rightarrow> []
      | Some (uuid, ap) \<Rightarrow> filter is_submit (respond A w uuid ap))"
  by (simp add: process_split fetch_and_analyze_no_submit split: option.splits)

lemma in_filter_submit: "Call_SubmitComment c u \<in> set tr \<longleftrightarrow> Call_SubmitComment c u \<in> set (filter is_submit tr)"
  by simp

lemma Do_in_process:
  assumes "Call_Do req \<in> set (process A w msg)"
  shows "Call_Do req \<in> set (fst (fetch_and_analyze A w msg))"
proof -
  have "Call_Do req \<in> set (filter is_analyze (process A w msg))"
    using assms by simp
  also have "filter is_analyze (process A w msg) = filter is_analyze (fst (fetch_and_analyze A w msg))"
    by (simp add: process_split analyze_respond split: option.splits)
  finally show ?thesis by simp
qed

lemma example_fetch_and_analyze:
  "fetch_and_analyze (example_analyzer \<lparr>TrackID = ''ruby'', Files = fs\<rparr>) (example_world ap)
     (example_msg [JString ''abc123'']) =
   ([Call_FetchSolution ''abc123'',
     Call_Do \<lparr>Method = ''POST'', URL = ''http://analysseur/analyze/ruby'',
       ReqBody = strings_Join (map snd fs) ''\<newline>''\<rparr>],
    Some (''abc123'', ap))"
  by (simp add: fetch_and_analyze_def example_analyzer_def example_exercism_def
      example_world_def example_msg_def Json_String_def GetIndex_def)

lemma example_process:
  "process (example_analyzer (example_solution ''ruby'')) (example_world (example_payload []))
     (example_msg [JString ''abc123'']) =
   [Call_FetchSolution ''abc123'',
    Call_Do \<lparr>Method = ''POST'', URL = ''http://analysseur/analyze/ruby'', ReqBody = ''code''\<rparr>,
    Sanity_Printf ''%s : %s - %s\<newline>'' [S ''abc123'', S ''smell'', S ''unused_variable''],
    Call_SubmitComment ''Consider removing unused variables.'' ''abc123'']"
  unfolding process_def example_solution_def example_fetch_and_analyze respond_def
    example_payload_def
  by (simp add: sanity_lines_def publish_def example_select
      example_analyzer_def example_exercism_def example_world_def)

text \<open>
  Claim C7. When the first argument of the queue message is missing or is not a string
  (the arguments are not an array that starts with a string), the job logs that it
  cannot determine the submission key and ends: its trace holds no call to the
  platform or to the analysis service.
\<close>

theorem malformed_message_no_network_call:
  assumes "\<forall>s rest. Args msg \<noteq> JArray (JString s # rest)"
  shows "process A w msg =
           [Lgr_Printf ''unable to determine submission key - %s\<newline>''
              [E (Err ''type assertion to string failed'')]] \<and>
         filter is_network (process A w msg) = []"
  using first_arg_not_string [OF assms]
  by (simp add: process_def fetch_and_analyze_def)

theorem malformed_message_no_network_call_witness:
  "(\<forall>s rest. Args (example_msg [JNumber 7]) \<noteq> JArray (JString s # rest)) \<and>
   (\<forall>s rest. Args (example_msg []) \<noteq> JArray (JString s # rest)) \<and>
   filter is_network (process (example_analyzer (example_solution ''ruby'')) (example_world (example_payload []))
     (example_msg [JNumber 7])) = [] \<and>
   filter is_network (process (example_analyzer (example_solution ''ruby'')) (example_world (example_payload []))
     (example_msg [])) = []"
proof -
  have a: "\<forall>s rest. Args (example_msg [JNumber 7]) \<noteq> JArray (JString s # rest)"
    by (simp add: example_msg_def)
  have b: "\<forall>s rest. Args (example_msg []) \<noteq> JArray (JString s # rest)"
    by (simp add: example_msg_def)
  show ?thesis
    using a b
      malformed_message_no_network_call [OF a, of "example_analyzer (example_solution ''ruby'')"
        "example_world (example_payload [])"]
      malformed_message_no_network_call [OF b, of "example_analyzer (example_solution ''ruby'')"
        "example_world (example_payload [])"]
    by simp
qed

text \<open>
  Claim C6, as amended. When the fetched submission's track is not \<open>ruby\<close>, the job
  ends after the fetch: it makes no analysis request and submits no comment. The skip
  is not silent: the job writes one line, the "skipping" notice with the track, to the
  logger \<open>lgr\<close>, and nothing else.
\<close>

theorem unsupported_track_skipped:
  assumes "Args msg = JArray (JString uuid # rest)"
    and "FetchSolution (exercism A) uuid = Inr sol"
    and "TrackID sol \<noteq> ''ruby''"
  shows "process A w msg =
           [Call_FetchSolution uuid,
            Lgr_Printf ''skipping - rikki- doesn't support %s\<newline>'' [S (TrackID sol)]] \<and>
         filter is_analyze (process A w msg) = [] \<and>
         filter is_submit (process A w msg) = [] \<and>
         filter is_log (process A w msg) =
           [Lgr_Printf ''skipping - rikki- doesn't support %s\<newline>'' [S (TrackID sol)]]"
proof -
  have "Json_String (GetIndex (Args msg) 0) = Inr uuid"
    using assms(1) by (simp add: first_arg_string)
  then show ?thesis
    using assms(2,3) by (simp add: process_def fetch_and_analyze_def)
qed

theorem unsupported_track_skipped_witness:
  "Args (example_msg [JString ''abc123'']) = JArray (JString ''abc123'' # []) \<and>
   FetchSolution (exercism (example_analyzer (example_solution ''python''))) ''abc123'' = Inr (example_solution ''python'') \<and>
   TrackID (example_solution ''python'') \<noteq> ''ruby'' \<and>
   process (example_analyzer (example_solution ''python'')) (example_world (example_payload [])) (example_msg [JString ''abc123'']) =
     [Call_FetchSolution ''abc123'',
      Lgr_Printf ''skipping - rikki- doesn't support %s\<newline>'' [S ''python'']]"
proof -
  have a: "Args (example_msg [JString ''abc123'']) = JArray (JString ''abc123'' # [])"
    by (simp add: example_msg_def)
  have b: "FetchSolution (exercism (example_analyzer (example_solution ''python''))) ''abc123'' = Inr (example_solution ''python'')"
    by (simp add: example_analyzer_def example_exercism_def)
  have c: "TrackID (example_solution ''python'') \<noteq> ''ruby''"
    by (simp add: example_solution_def)
  have d: "TrackID (example_solution ''python'') = ''python''"
    by (simp add: example_solution_def)
  show ?thesis
    using a b c unsupported_track_skipped [OF a b c, of "example_world (example_payload [])"]
    by (simp add: d)
qed

text \<open>
  Claim C6 as stated fails: the job for a \<open>python\<close> submission is not silent, it
  writes the "skipping" notice; the job that ends on a payload without results is
  silent.
\<close>

theorem unsupported_track_not_silent_counterexample:
  "TrackID (example_solution ''python'') \<noteq> ''ruby'' \<and>
   filter is_log (process (example_analyzer (example_solution ''python''))
     (example_world (example_payload [])) (example_msg [JString ''abc123''])) =
     [Lgr_Printf ''skipping - rikki- doesn't support %s\<newline>'' [S ''python'']] \<and>
   \<not> silent (process (example_analyzer (example_solution ''python''))
     (example_world (example_payload [])) (example_msg [JString ''abc123''])) \<and>
   silent (process (example_analyzer (example_solution ''ruby''))
     (example_world \<lparr>Results = [], Error = []\<rparr>) (example_msg [JString ''abc123'']))"
proof -
  have p: "process (example_analyzer (example_solution ''python''))
      (example_world (example_payload [])) (example_msg [JString ''abc123'']) =
      [Call_FetchSolution ''abc123'',
       Lgr_Printf ''skipping - rikki- doesn't support %s\<newline>'' [S ''python'']]"
    by (simp add: process_def fetch_and_analyze_def example_analyzer_def example_exercism_def
        example_solution_def example_msg_def Json_String_def GetIndex_def)
  have r: "process (example_analyzer (example_solution ''ruby''))
      (example_world \<lparr>Results = [], Error = []\<rparr>) (example_msg [JString ''abc123'']) =
      [Call_FetchSolution ''abc123'',
       Call_Do \<lparr>Method = ''POST'', URL = ''http://analysseur/analyze/ruby'', ReqBody = ''code''\<rparr>]"
    unfolding process_def example_solution_def example_fetch_and_analyze
    by (simp add: respond_def)
  show ?thesis
    unfolding p r by (simp add: silent_def example_solution_def)
qed

text \<open>
  Claim C9, as amended. The body of every request to the analysis service encodes, as
  its code, the contents of the submission's files in the order in which \<open>range\<close>
  visits the map of the files: the first content visited, then a line break and the
  next content for each further file. The file names are not part of it. When \<open>range\<close>
  visits every entry once, as Go promises, these are the contents of the submission's
  files, each as often as the submission has it; the order is the runtime's, not the
  submission's. And a job that has fetched a \<open>ruby\<close> submission and prepared the request
  sends exactly this body.
\<close>

theorem code_blob_is_joined_sources:
  "(Call_Do req \<in> set (process A w msg) \<longrightarrow>
     (\<exists>uuid rest sol visited.
        Args msg = JArray (JString uuid # rest) \<and>
        FetchSolution (exercism A) uuid = Inr sol \<and>
        visited = range_Files w (Files sol) \<and>
        (mset visited = mset (Files sol) \<longrightarrow>
           mset (map snd visited) = mset (map snd (Files sol))) \<and>
        json_Marshal w
          \<lparr>Code = (case map snd visited of
                      [] \<Rightarrow> []
                    | c # cs \<Rightarrow> c @ concat (map ((@) ''\<newline>'') cs))\<rparr> = Inr (ReqBody req))) \<and>
   (Args msg = JArray (JString uuid # rest) \<and>
    FetchSolution (exercism A) uuid = Inr sol \<and> TrackID sol = ''ruby'' \<and>
    json_Marshal w
      \<lparr>Code = (case map snd (range_Files w (Files sol)) of
                  [] \<Rightarrow> []
                | c # cs \<Rightarrow> c @ concat (map ((@) ''\<newline>'') cs))\<rparr> = Inr body \<and>
    http_NewRequest w ''POST'' (analysseurHost A @ ''/analyze/ruby'') body = None \<longrightarrow>
      Call_Do \<lparr>Method = ''POST'', URL = analysseurHost A @ ''/analyze/ruby'', ReqBody = body\<rparr>
        \<in> set (process A w msg))"
proof (intro conjI impI)
  assume "Call_Do req \<in> set (process A w msg)"
  then have "Call_Do req \<in> set (fst (fetch_and_analyze A w msg))"
    by (rule Do_in_process)
  from fetch_and_analyze_Do [OF this] obtain uuid sol where
    u: "Json_String (GetIndex (Args msg) 0) = Inr uuid"
    and s: "FetchSolution (exercism A) uuid = Inr sol"
    and m: "json_Marshal w \<lparr>Code = strings_Join (map snd (range_Files w (Files sol))) ''\<newline>''\<rparr> =
      Inr (ReqBody req)"
    by blast
  from u obtain rest where a: "Args msg = JArray (JString uuid # rest)"
    by (auto simp: first_arg_string)
  have p: "mset (range_Files w (Files sol)) = mset (Files sol) \<longrightarrow>
      mset (map snd (range_Files w (Files sol))) = mset (map snd (Files sol))"
    by (metis mset_map)
  from m have "json_Marshal w
      \<lparr>Code = (case map snd (range_Files w (Files sol)) of
                  [] \<Rightarrow> []
                | c # cs \<Rightarrow> c @ concat (map ((@) ''\<newline>'') cs))\<rparr> = Inr (ReqBody req)"
    by (simp add: strings_Join_concat)
  with a s p show "\<exists>uuid rest sol visited.
        Args msg = JArray (JString uuid # rest) \<and>
        FetchSolution (exercism A) uuid = Inr sol \<and>
        visited = range_Files w (Files sol) \<and>
        (mset visited = mset (Files sol) \<longrightarrow>
           mset (map snd visited) = mset (map snd (Files sol))) \<and>
        json_Marshal w
          \<lparr>Code = (case map snd visited of
                      [] \<Rightarrow> []
                    | c # cs \<Rightarrow> c @ concat (map ((@) ''\<newline>'') cs))\<rparr> = Inr (ReqBody req)"
    by blast
next
  assume a: "Args msg = JArray (JString uuid # rest) \<and>
    FetchSolution (exercism A) uuid = Inr sol \<and> TrackID sol = ''ruby'' \<and>
    json_Marshal w
      \<lparr>Code = (case map snd (range_Files w (Files sol)) of
                  [] \<Rightarrow> []
                | c # cs \<Rightarrow> c @ concat (map ((@) ''\<newline>'') cs))\<rparr> = Inr body \<and>
    http_NewRequest w ''POST'' (analysseurHost A @ ''/analyze/ruby'') body = None"
  then have "json_Marshal w \<lparr>Code = strings_Join (map snd (range_Files w (Files sol))) ''\<newline>''\<rparr> = Inr body"
    by (simp add: strings_Join_concat)
  with a have "Call_Do \<lparr>Method = ''POST'', URL = analysseurHost A @ ''/analyze/ruby'', ReqBody = body\<rparr>
      \<in> set (fst (fetch_and_analyze A w msg))"
    by (intro request_is_sent [of msg uuid rest A sol w body]) simp_all
  then show "Call_Do \<lparr>Method = ''POST'', URL = analysseurHost A @ ''/analyze/ruby'', ReqBody = body\<rparr>
      \<in> set (process A w msg)"
    by (simp add: process_split)
qed

theorem code_blob_is_joined_sources_witness:
  "mset (range_Files ((example_world (example_payload []))\<lparr>range_Files := rev\<rparr>)
      [(''a.rb'', ''class A''), (''b.rb'', ''class B''), (''c.rb'', ''end'')]) =
   mset [(''a.rb'', ''class A''), (''b.rb'', ''class B''), (''c.rb'', ''end'')] \<and>
   Call_Do \<lparr>Method = ''POST'', URL = ''http://analysseur/analyze/ruby'',
            ReqBody = ''end\<newline>class B\<newline>class A''\<rparr>
     \<in> set (process
         (example_analyzer \<lparr>TrackID = ''ruby'',
            Files = [(''a.rb'', ''class A''), (''b.rb'', ''class B''), (''c.rb'', ''end'')]\<rparr>)
         ((example_world (example_payload []))\<lparr>range_Files := rev\<rparr>)
         (example_msg [JString ''abc123''])) \<and>
   (\<exists>uuid rest sol visited.
      Args (example_msg [JString ''abc123'']) = JArray (JString uuid # rest) \<and>
      FetchSolution (exercism (example_analyzer \<lparr>TrackID = ''ruby'',
            Files = [(''a.rb'', ''class A''), (''b.rb'', ''class B''), (''c.rb'', ''end'')]\<rparr>)) uuid = Inr sol \<and>
      visited = range_Files ((example_world (example_payload []))\<lparr>range_Files := rev\<rparr>) (Files sol) \<and>
      mset (map snd visited) = mset (map snd (Files sol)) \<and>
      json_Marshal ((example_world (example_payload []))\<lparr>range_Files := rev\<rparr>)
        \<lparr>Code = (case map snd visited of
                    [] \<Rightarrow> []
                  | c # cs \<Rightarrow> c @ concat (map ((@) ''\<newline>'') cs))\<rparr> =
        Inr ''end\<newline>class B\<newline>class A'')"
proof -
  let ?fs = "[(''a.rb'', ''class A''), (''b.rb'', ''class B''), (''c.rb'', ''end'')]"
  let ?sol = "\<lparr>TrackID = ''ruby'', Files = ?fs\<rparr>"
  let ?A = "example_analyzer ?sol"
  let ?w = "(example_world (example_payload []))\<lparr>range_Files := rev\<rparr>"
  let ?msg = "example_msg [JString ''abc123'']"
  let ?body = "''end\<newline>class B\<newline>class A''"
  let ?req = "\<lparr>Method = ''POST'', URL = ''http://analysseur/analyze/ruby'', ReqBody = ?body\<rparr>"
  have r: "range_Files ?w fs = rev fs" for fs
    by simp
  have pm: "mset (range_Files ?w ?fs) = mset ?fs"
    unfolding r by (simp only: mset_rev)
  have h: "Args ?msg = JArray (JString ''abc123'' # []) \<and>
    FetchSolution (exercism ?A) ''abc123'' = Inr ?sol \<and> TrackID ?sol = ''ruby'' \<and>
    json_Marshal ?w
      \<lparr>Code = (case map snd (range_Files ?w (Files ?sol)) of
                  [] \<Rightarrow> []
                | c # cs \<Rightarrow> c @ concat (map ((@) ''\<newline>'') cs))\<rparr> = Inr ?body \<and>
    http_NewRequest ?w ''POST'' (analysseurHost ?A @ ''/analyze/ruby'') ?body = None"
    by (simp add: example_msg_def example_analyzer_def example_exercism_def example_world_def)
  have u: "analysseurHost ?A @ ''/analyze/ruby'' = ''http://analysseur/analyze/ruby''"
    by (simp add: example_analyzer_def)
  from code_blob_is_joined_sources [of ?req ?A ?w ?msg "''abc123''" "[]" ?sol ?body] h
  have m: "Call_Do ?req \<in> set (process ?A ?w ?msg)"
    unfolding u by blast
  with code_blob_is_joined_sources [of ?req ?A ?w ?msg "''abc123''" "[]" ?sol ?body]
  obtain uuid rest sol visited where
    e: "Args ?msg = JArray (JString uuid # rest)"
      "FetchSolution (exercism ?A) uuid = Inr sol"
      "visited = range_Files ?w (Files sol)"
      "mset visited = mset (Files sol) \<longrightarrow> mset (map snd visited) = mset (map snd (Files sol))"
      "json_Marshal ?w
        \<lparr>Code = (case map snd visited of
                    [] \<Rightarrow> []
                  | c # cs \<Rightarrow> c @ concat (map ((@) ''\<newline>'') cs))\<rparr> = Inr (ReqBody ?req)"
    by blast
  have "mset visited = mset (Files sol)"
    unfolding e(3) r by (simp only: mset_rev)
  with e(4) have "mset (map snd visited) = mset (map snd (Files sol))"
    by blast
  with e(1,2,3,5) have "\<exists>uuid rest sol visited.
      Args ?msg = JArray (JString uuid # rest) \<and>
      FetchSolution (exercism ?A) uuid = Inr sol \<and>
      visited = range_Files ?w (Files sol) \<and>
      mset (map snd visited) = mset (map snd (Files sol)) \<and>
      json_Marshal ?w
        \<lparr>Code = (case map snd visited of
                    [] \<Rightarrow> []
                  | c # cs \<Rightarrow> c @ concat (map ((@) ''\<newline>'') cs))\<rparr> = Inr ?body"
    by auto
  with pm m show ?thesis by blast
qed

text \<open>
  Claim C9 as stated fails: for a submission that gives \<open>a.rb\<close> before \<open>b.rb\<close> and a
  runtime whose \<open>range\<close> visits \<open>b.rb\<close> first, the one request that the job sends has
  the content of \<open>b.rb\<close> first, and not the blob in the order of the submission.
\<close>

theorem code_blob_order_counterexample:
  "spec_code_blob \<lparr>TrackID = ''ruby'', Files = [(''a.rb'', ''class A''), (''b.rb'', ''end'')]\<rparr> =
     ''class A\<newline>end'' \<and>
   range_Files ((example_world (example_payload []))\<lparr>range_Files := rev\<rparr>)
     [(''a.rb'', ''class A''), (''b.rb'', ''end'')] =
     [(''b.rb'', ''end''), (''a.rb'', ''class A'')] \<and>
   filter is_analyze
     (process
        (example_analyzer \<lparr>TrackID = ''ruby'', Files = [(''a.rb'', ''class A''), (''b.rb'', ''end'')]\<rparr>)
        ((example_world (example_payload []))\<lparr>range_Files := rev\<rparr>)
        (example_msg [JString ''abc123''])) =
     [Call_Do \<lparr>Method = ''POST'', URL = ''http://analysseur/analyze/ruby'',
               ReqBody = ''end\<newline>class A''\<rparr>]"
proof -
  let ?sol = "\<lparr>TrackID = ''ruby'', Files = [(''a.rb'', ''class A''), (''b.rb'', ''end'')]\<rparr>"
  let ?w = "(example_world (example_payload []))\<lparr>range_Files := rev\<rparr>"
  have s: "spec_code_blob ?sol = ''class A\<newline>end''"
    by (simp add: spec_code_blob_def)
  have r: "range_Files ?w [(''a.rb'', ''class A''), (''b.rb'', ''end'')] =
      [(''b.rb'', ''end''), (''a.rb'', ''class A'')]"
    by simp
  have f: "fst (fetch_and_analyze (example_analyzer ?sol) ?w (example_msg [JString ''abc123''])) =
      [Call_FetchSolution ''abc123'',
       Call_Do \<lparr>Method = ''POST'', URL = ''http://analysseur/analyze/ruby'',
                ReqBody = ''end\<newline>class A''\<rparr>]"
    by (simp add: fetch_and_analyze_def example_analyzer_def example_exercism_def
        example_world_def example_msg_def Json_String_def GetIndex_def)
  have "filter is_analyze (process (example_analyzer ?sol) ?w (example_msg [JString ''abc123''])) =
      filter is_analyze (fst (fetch_and_analyze (example_analyzer ?sol) ?w (example_msg [JString ''abc123''])))"
    by (simp add: process_split analyze_respond split: option.splits)
  then have "filter is_analyze (process (example_analyzer ?sol) ?w (example_msg [JString ''abc123''])) =
      [Call_Do \<lparr>Method = ''POST'', URL = ''http://analysseur/analyze/ruby'',
                ReqBody = ''end\<newline>class A''\<rparr>]"
    by (simp only: f) simp
  with s r show ?thesis by blast
qed

text \<open>
  Claim C4. A parsed payload with a non-empty error string, whatever its results, makes
  the job log the complaint and end; a payload with no results makes it end at once. In
  both cases nothing of the selection runs (no sanity line, no comment looked up) and no
  comment is submitted.
\<close>

theorem no_publish_on_error_or_empty_results:
  assumes "Error ap \<noteq> [] \<or> Results ap = []"
  shows "respond A w uuid ap =
           (if Error ap \<noteq> [] then
              [Lgr_Printf ''analysis api is complaining about %s - %s\<newline>'' [S uuid, S (Error ap)]]
            else []) \<and>
         (fetch_and_analyze A w msg = (trace, Some (uuid, ap)) \<longrightarrow>
            process A w msg = trace @ respond A w uuid ap \<and>
            filter is_submit (process A w msg) = [])"
proof (intro conjI impI)
  show r: "respond A w uuid ap =
           (if Error ap \<noteq> [] then
              [Lgr_Printf ''analysis api is complaining about %s - %s\<newline>'' [S uuid, S (Error ap)]]
            else [])"
    using assms by (auto simp: respond_def)
  assume f: "fetch_and_analyze A w msg = (trace, Some (uuid, ap))"
  then show "process A w msg = trace @ respond A w uuid ap"
    by (simp add: process_def)
  show "filter is_submit (process A w msg) = []"
    using f assms by (auto simp: submit_process submit_respond)
qed

theorem no_publish_on_error_or_empty_results_witness:
  "Error (example_payload ''timeout'') = ''timeout'' \<and>
   Results \<lparr>Results = [], Error = []\<rparr> = [] \<and>
   process (example_analyzer (example_solution ''ruby'')) (example_world (example_payload ''timeout''))
     (example_msg [JString ''abc123'']) =
   [Call_FetchSolution ''abc123'',
    Call_Do \<lparr>Method = ''POST'', URL = ''http://analysseur/analyze/ruby'', ReqBody = ''code''\<rparr>,
    Lgr_Printf ''analysis api is complaining about %s - %s\<newline>'' [S ''abc123'', S ''timeout'']] \<and>
   process (example_analyzer (example_solution ''ruby'')) (example_world \<lparr>Results = [], Error = []\<rparr>)
     (example_msg [JString ''abc123'']) =
   [Call_FetchSolution ''abc123'',
    Call_Do \<lparr>Method = ''POST'', URL = ''http://analysseur/analyze/ruby'', ReqBody = ''code''\<rparr>]"
proof -
  have a: "Error (example_payload ''timeout'') \<noteq> [] \<or> Results (example_payload ''timeout'') = []"
    by (simp add: example_payload_def)
  have b: "Error \<lparr>Results = [], Error = []\<rparr> \<noteq> [] \<or> Results \<lparr>Results = [], Error = []\<rparr> = []"
    by simp
  have f: "fetch_and_analyze (example_analyzer (example_solution ''ruby'')) (example_world ap)
     (example_msg [JString ''abc123'']) =
     ([Call_FetchSolution ''abc123'',
       Call_Do \<lparr>Method = ''POST'', URL = ''http://analysseur/analyze/ruby'', ReqBody = ''code''\<rparr>],
      Some (''abc123'', ap))" for ap
    by (simp add: example_solution_def example_fetch_and_analyze)
  show ?thesis
    using a b
      no_publish_on_error_or_empty_results [OF a,
        of "example_analyzer (example_solution ''ruby'')" "example_world (example_payload ''timeout'')"
           "''abc123''" "example_msg [JString ''abc123'']"]
      no_publish_on_error_or_empty_results [OF b,
        of "example_analyzer (example_solution ''ruby'')" "example_world \<lparr>Results = [], Error = []\<rparr>"
           "''abc123''" "example_msg [JString ''abc123'']"]
    by (simp add: f example_payload_def)
qed

text \<open>
  Claim C3. A corpus entry with empty content changes nothing: the selection and the
  whole job run as they do with that entry removed from the corpus. No job submits an
  empty comment.
\<close>

theorem empty_content_is_skipped:
  "(comments A k = Some [] \<longrightarrow>
      select_comment ((comments A)(k := None)) draw results =
        select_comment (comments A) draw results \<and>
      process (A\<lparr>comments := (comments A)(k := None)\<rparr>) w msg = process A w msg) \<and>
   (\<forall>u. Call_SubmitComment [] u \<notin> set (process A w msg))"
proof (intro conjI impI allI)
  assume e: "comments A k = Some []"
  then show "select_comment ((comments A)(k := None)) draw results =
        select_comment (comments A) draw results"
    by (rule select_comment_remove_empty)
  from e show "process (A\<lparr>comments := (comments A)(k := None)\<rparr>) w msg = process A w msg"
    by (simp add: process_def fetch_and_analyze_comments respond_remove_empty
        split: prod.splits option.splits)
next
  fix u
  have "Call_SubmitComment [] u \<notin> set (filter is_submit (process A w msg))"
    by (simp add: submit_process submit_respond split: option.splits)
  then show "Call_SubmitComment [] u \<notin> set (process A w msg)"
    by simp
qed

theorem empty_content_is_skipped_witness:
  "comments ((example_analyzer (example_solution ''ruby''))\<lparr>comments := [''smell/unused_variable'' \<mapsto> []]\<rparr>)
     ''smell/unused_variable'' = Some [] \<and>
   process ((example_analyzer (example_solution ''ruby''))\<lparr>comments := Map.empty\<rparr>)
     (example_world (example_payload [])) (example_msg [JString ''abc123'']) =
   process ((example_analyzer (example_solution ''ruby''))\<lparr>comments := [''smell/unused_variable'' \<mapsto> []]\<rparr>)
     (example_world (example_payload [])) (example_msg [JString ''abc123'']) \<and>
   process ((example_analyzer (example_solution ''ruby''))\<lparr>comments := Map.empty\<rparr>)
     (example_world (example_payload [])) (example_msg [JString ''abc123'']) =
   [Call_FetchSolution ''abc123'',
    Call_Do \<lparr>Method = ''POST'', URL = ''http://analysseur/analyze/ruby'', ReqBody = ''code''\<rparr>,
    Sanity_Printf ''%s : %s - %s\<newline>'' [S ''abc123'', S ''smell'', S ''unused_variable'']]"
proof -
  let ?A = "(example_analyzer (example_solution ''ruby''))\<lparr>comments := [''smell/unused_variable'' \<mapsto> []]\<rparr>"
  let ?A' = "(example_analyzer (example_solution ''ruby''))\<lparr>comments := Map.empty\<rparr>"
  let ?w = "example_world (example_payload [])"
  let ?msg = "example_msg [JString ''abc123'']"
  have e: "comments ?A ''smell/unused_variable'' = Some []"
    by simp
  have u: "?A\<lparr>comments := (comments ?A)(''smell/unused_variable'' := None)\<rparr> = ?A'"
    by simp
  have "select_comment Map.empty id [\<lparr>Type = ''smell'', Keys = [''unused_variable'']\<rparr>] = []"
    unfolding select_comment_def example_smells shuffle_single
    by (simp add: map_index_def)
  then have p: "process ?A' ?w ?msg =
    [Call_FetchSolution ''abc123'',
     Call_Do \<lparr>Method = ''POST'', URL = ''http://analysseur/analyze/ruby'', ReqBody = ''code''\<rparr>,
     Sanity_Printf ''%s : %s - %s\<newline>'' [S ''abc123'', S ''smell'', S ''unused_variable'']]"
    unfolding process_def fetch_and_analyze_comments example_solution_def
      example_fetch_and_analyze respond_def example_payload_def
    by (simp add: sanity_lines_def publish_def example_world_def)
  from empty_content_is_skipped [of ?A "''smell/unused_variable''" id "[]" ?w ?msg] e
  have "process (?A\<lparr>comments := (comments ?A)(''smell/unused_variable'' := None)\<rparr>) ?w ?msg =
      process ?A ?w ?msg"
    by blast
  then have "process ?A' ?w ?msg = process ?A ?w ?msg"
    by (simp only: u)
  with e p show ?thesis by simp
qed

text \<open>
  Claim C8. A job submits at most one comment. When it submits one, that is its only
  submission, for the submission key of the message, and the content is the non-empty
  comment that the selection found in the corpus for one of the payload's smells.
\<close>

theorem publish_at_most_once:
  "length (filter is_submit (process A w msg)) \<le> 1 \<and>
   (\<forall>c u. Call_SubmitComment c u \<in> set (process A w msg) \<longrightarrow>
      filter is_submit (process A w msg) = [Call_SubmitComment c u] \<and>
      (\<exists>trace ap. fetch_and_analyze A w msg = (trace, Some (u, ap)) \<and>
         Error ap = [] \<and> Results ap \<noteq> [] \<and> c \<noteq> [] \<and>
         c = select_comment (comments A) (rand_source w) (Results ap) \<and>
         (\<exists>smell \<in> set (append_results (Results ap) []). comments A smell = Some c)))"
proof (intro conjI allI impI)
  show "length (filter is_submit (process A w msg)) \<le> 1"
    by (simp add: submit_process submit_respond split: option.splits)
next
  fix c u
  assume "Call_SubmitComment c u \<in> set (process A w msg)"
  then have m: "Call_SubmitComment c u \<in> set (filter is_submit (process A w msg))"
    by simp
  then obtain trace ap where f: "fetch_and_analyze A w msg = (trace, Some (u, ap))"
    and e: "Error ap = []" and r: "Results ap \<noteq> []"
    and c: "c = select_comment (comments A) (rand_source w) (Results ap)" and n: "c \<noteq> []"
    by (cases "fetch_and_analyze A w msg")
      (auto simp: submit_process submit_respond split: option.splits if_splits)
  from f e r c n show "filter is_submit (process A w msg) = [Call_SubmitComment c u]"
    by (simp add: submit_process submit_respond)
  from n c select_comment_source [of "comments A" "rand_source w" "Results ap"]
  have "\<exists>smell \<in> set (append_results (Results ap) []). comments A smell = Some c"
    by simp
  with f e r c n
  show "\<exists>trace ap. fetch_and_analyze A w msg = (trace, Some (u, ap)) \<and>
         Error ap = [] \<and> Results ap \<noteq> [] \<and> c \<noteq> [] \<and>
         c = select_comment (comments A) (rand_source w) (Results ap) \<and>
         (\<exists>smell \<in> set (append_results (Results ap) []). comments A smell = Some c)"
    by blast
qed

theorem publish_at_most_once_witness:
  "Call_SubmitComment ''Consider removing unused variables.'' ''abc123''
     \<in> set (process (example_analyzer (example_solution ''ruby'')) (example_world (example_payload []))
         (example_msg [JString ''abc123''])) \<and>
   filter is_submit (process (example_analyzer (example_solution ''ruby''))
     (example_world (example_payload [])) (example_msg [JString ''abc123''])) =
     [Call_SubmitComment ''Consider removing unused variables.'' ''abc123''] \<and>
   (\<exists>smell \<in> set (append_results (Results (example_payload [])) []).
      comments (example_analyzer (example_solution ''ruby'')) smell =
        Some ''Consider removing unused variables.'')"
proof -
  let ?A = "example_analyzer (example_solution ''ruby'')"
  let ?w = "example_world (example_payload [])"
  let ?msg = "example_msg [JString ''abc123'']"
  let ?c = "''Consider removing unused variables.''"
  have m: "Call_SubmitComment ?c ''abc123'' \<in> set (process ?A ?w ?msg)"
    by (simp add: example_process)
  have f: "fetch_and_analyze ?A ?w ?msg =
     ([Call_FetchSolution ''abc123'',
       Call_Do \<lparr>Method = ''POST'', URL = ''http://analysseur/analyze/ruby'', ReqBody = ''code''\<rparr>],
      Some (''abc123'', example_payload []))"
    by (simp add: example_solution_def example_fetch_and_analyze)
  from publish_at_most_once [of ?A ?w ?msg] m
  have "filter is_submit (process ?A ?w ?msg) = [Call_SubmitComment ?c ''abc123''] \<and>
      (\<exists>trace ap. fetch_and_analyze ?A ?w ?msg = (trace, Some (''abc123'', ap)) \<and>
         Error ap = [] \<and> Results ap \<noteq> [] \<and> ?c \<noteq> [] \<and>
         ?c = select_comment (comments ?A) (rand_source ?w) (Results ap) \<and>
         (\<exists>smell \<in> set (append_results (Results ap) []). comments ?A smell = Some ?c))"
    by blast
  with m f show ?thesis by auto
qed

section \<open>The comment corpus\<close>

lemma fn_Dir: "fn dir cmts path (Dir names) = Inr cmts"
  by (simp add: fn_def)

lemma fn_File: "fn dir cmts path (File (Inr b)) = Inr (cmts(corpus_key dir path \<mapsto> b))"
  by (simp add: fn_def corpus_key_def)

lemma fn_File_error: "fn dir cmts path (File (Inl e)) = Inl e"
  by (simp add: fn_def)

lemma walk_calls_readable:
  "all_readable visits \<Longrightarrow>
   walk_calls dir cmts visits = Inr (cmts ++ map_of (rev (file_entries dir visits)))"
proof (induction visits arbitrary: cmts rule: all_readable.induct)
  case 1
  then show ?case by simp
next
  case (2 path e rest)
  then show ?case by simp
next
  case (3 path b rest)
  then have "walk_calls dir cmts ((path, File (Inr b)) # rest) =
      Inr (cmts(corpus_key dir path \<mapsto> b) ++ map_of (rev (file_entries dir rest)))"
    by (simp add: fn_File)
  also have "cmts(corpus_key dir path \<mapsto> b) ++ map_of (rev (file_entries dir rest)) =
      cmts ++ map_of (rev (file_entries dir ((path, File (Inr b)) # rest)))"
    by (simp add: map_add_upd_left map_add_assoc [symmetric] map_of_append)
  finally show ?case .
next
  case (4 path names rest)
  then show ?case by (simp add: fn_Dir)
qed

lemma md_not_inside:
  assumes "\<not> sublist ''.md'' (rel @ ''.m'')" "k < length rel"
  shows "\<not> prefix ''.md'' (drop k (rel @ ''.md''))"
proof
  assume p: "prefix ''.md'' (drop k (rel @ ''.md''))"
  have "drop k (rel @ ''.md'') = (drop k (rel @ ''.m'')) @ ''d''"
    using assms(2) by simp
  with p have "prefix ''.md'' (drop k (rel @ ''.m'') @ [CHR ''d''])" by simp
  then have "''.md'' = drop k (rel @ ''.m'') @ [CHR ''d''] \<or> prefix ''.md'' (drop k (rel @ ''.m''))"
    by (simp only: prefix_snoc)
  moreover have "''.md'' \<noteq> drop k (rel @ ''.m'') @ [CHR ''d'']"
  proof
    assume e: "''.md'' = drop k (rel @ ''.m'') @ [CHR ''d'']"
    then have "drop k (rel @ ''.m'') = ''.m''" by simp
    moreover have "length (drop k (rel @ ''.m'')) = length rel - k + 2"
      using assms(2) by simp
    ultimately show False using assms(2) by (metis add_diff_cancel_right' length_Cons
          list.size(3) zero_less_diff less_numeral_extra(3) One_nat_def Suc_1 add_2_eq_Suc')
  qed
  ultimately have "prefix ''.md'' (drop k (rel @ ''.m''))" by blast
  then have "sublist ''.md'' (rel @ ''.m'')" by (rule prefix_drop_sublist)
  with assms(1) show False by blast
qed

lemma corpus_key_md:
  assumes root: "root \<noteq> []"
    and nr: "\<not> sublist root (''/'' @ rel @ ''.md'')"
    and nm: "\<not> sublist ''.md'' (rel @ ''.m'')"
    and nl: "rel = [] \<or> hd rel \<noteq> CHR ''/''"
  shows "corpus_key root (root @ ''/'' @ rel @ ''.md'') = rel"
proof -
  let ?on = "[(root, []), (''.md'', [])]"
  obtain c cs where rc: "root = c # cs" using root by (cases root) auto
  have "find (\<lambda>(old, new). old \<noteq> [] \<and> prefix old (root @ ''/'' @ rel @ ''.md'')) ?on = Some (root, [])"
    using root by simp
  then have "Replacer_Replace ?on (c # cs @ ''/'' @ rel @ ''.md'') =
      Replacer_Replace ?on (drop (length root) (c # cs @ ''/'' @ rel @ ''.md''))"
    by (simp add: rc)
  then have step1: "Replacer_Replace ?on (root @ ''/'' @ rel @ ''.md'') =
      Replacer_Replace ?on ((''/'' @ rel) @ ''.md'')"
    by (simp add: rc)
  have nomatch: "\<forall>k<length (''/'' @ rel). \<forall>(old, new) \<in> set ?on.
      \<not> prefix old (drop k ((''/'' @ rel) @ ''.md''))"
  proof (intro allI impI)
    fix k assume k: "k < length (''/'' @ rel)"
    have a: "\<not> prefix root (drop k ((''/'' @ rel) @ ''.md''))"
      using nr prefix_drop_sublist [of root k "''/'' @ rel @ ''.md''"] by auto
    have b: "\<not> prefix ''.md'' (drop k ((''/'' @ rel) @ ''.md''))"
    proof (cases k)
      case 0
      then show ?thesis by simp
    next
      case (Suc j)
      with k have "j < length rel" by simp
      from md_not_inside [OF nm this] Suc show ?thesis by simp
    qed
    from a b show "\<forall>(old, new) \<in> set ?on. \<not> prefix old (drop k ((''/'' @ rel) @ ''.md''))"
      by simp
  qed
  have "\<not> prefix root ''.md''"
  proof
    assume "prefix root ''.md''"
    then have "prefix root (drop (length (''/'' @ rel)) (''/'' @ rel @ ''.md''))" by simp
    then have "sublist root (''/'' @ rel @ ''.md'')" by (rule prefix_drop_sublist)
    with nr show False by blast
  qed
  then have last: "Replacer_Replace ?on ''.md'' = []"
    by simp
  have "Replacer_Replace ?on (root @ ''/'' @ rel @ ''.md'') = ''/'' @ rel"
    by (simp only: step1 Replace_no_match [OF nomatch] last append_Nil2)
  then show ?thesis
    using nl by (cases rel) (auto simp: corpus_key_def strings_TrimLeft_def)
qed

lemma NewAnalyzer_readable:
  assumes "all_readable (walk (filepath_Join [dir, ''analyzer'', ''ruby'']) tree)"
  shows "NewAnalyzer ex analysseur dir tree =
     Inr \<lparr>exercism = ex, analysseurHost = analysseur,
          comments = map_of (rev (file_entries (filepath_Join [dir, ''analyzer'', ''ruby''])
            (walk (filepath_Join [dir, ''analyzer'', ''ruby'']) tree)))\<rparr>"
  using walk_calls_readable [OF assms, of "filepath_Join [dir, ''analyzer'', ''ruby'']" Map.empty]
  by (simp add: NewAnalyzer_def filepath_Walk_def Let_def)

text \<open>
  Claim C2, as amended. When every regular file under the joined directory can be
  read, NewAnalyzer returns an analyzer whose corpus holds, for every regular file that
  the walk visits, the entry from the file's key to its raw content, a later file
  replacing an earlier one with the same key: the keys of the corpus are exactly the
  keys of the regular files, directories contribute nothing, and when the keys of the
  files are pairwise distinct every file has its own entry. The key of a file is its
  path with every occurrence of the root path and of \<open>.md\<close> removed and all leading
  separators trimmed; for a file \<open>root/rel.md\<close> where \<open>/rel.md\<close> does not contain the
  root path, \<open>rel.m\<close> does not contain \<open>.md\<close> and \<open>rel\<close> does not start with a
  separator, the key is \<open>rel\<close>.
\<close>

theorem corpus_construction:
  "(let root = filepath_Join [dir, ''analyzer'', ''ruby''];
        entries = file_entries root (walk root tree)
    in all_readable (walk root tree) \<longrightarrow>
       (\<exists>a. NewAnalyzer ex analysseur dir tree = Inr a \<and>
            exercism a = ex \<and> analysseurHost a = analysseur \<and>
            comments a = map_of (rev entries) \<and>
            dom (comments a) = fst ` set entries \<and>
            (distinct (map fst entries) \<longrightarrow>
               (\<forall>(key, b) \<in> set entries. comments a key = Some b)))) \<and>
   (r \<noteq> [] \<and> \<not> sublist r (''/'' @ rel @ ''.md'') \<and> \<not> sublist ''.md'' (rel @ ''.m'') \<and>
    (rel = [] \<or> hd rel \<noteq> CHR ''/'') \<longrightarrow>
      corpus_key r (r @ ''/'' @ rel @ ''.md'') = rel)"
proof (intro conjI)
  show "let root = filepath_Join [dir, ''analyzer'', ''ruby''];
        entries = file_entries root (walk root tree)
    in all_readable (walk root tree) \<longrightarrow>
       (\<exists>a. NewAnalyzer ex analysseur dir tree = Inr a \<and>
            exercism a = ex \<and> analysseurHost a = analysseur \<and>
            comments a = map_of (rev entries) \<and>
            dom (comments a) = fst ` set entries \<and>
            (distinct (map fst entries) \<longrightarrow>
               (\<forall>(key, b) \<in> set entries. comments a key = Some b)))"
    unfolding Let_def
  proof
    let ?root = "filepath_Join [dir, ''analyzer'', ''ruby'']"
    let ?entries = "file_entries ?root (walk ?root tree)"
    let ?a = "\<lparr>exercism = ex, analysseurHost = analysseur, comments = map_of (rev ?entries)\<rparr>"
    assume "all_readable (walk ?root tree)"
    then have n: "NewAnalyzer ex analysseur dir tree = Inr ?a"
      by (rule NewAnalyzer_readable)
    have d: "dom (comments ?a) = fst ` set ?entries"
      by (simp add: dom_map_of_conv_image_fst)
    have u: "distinct (map fst ?entries) \<longrightarrow> (\<forall>(key, b) \<in> set ?entries. comments ?a key = Some b)"
      by (auto simp: distinct_rev rev_map [symmetric])
    from n d u
    show "\<exists>a. NewAnalyzer ex analysseur dir tree = Inr a \<and>
            exercism a = ex \<and> analysseurHost a = analysseur \<and>
            comments a = map_of (rev ?entries) \<and>
            dom (comments a) = fst ` set ?entries \<and>
            (distinct (map fst ?entries) \<longrightarrow>
               (\<forall>(key, b) \<in> set ?entries. comments a key = Some b))"
      by (intro exI [of _ ?a]) simp
  qed
next
  show "r \<noteq> [] \<and> \<not> sublist r (''/'' @ rel @ ''.md'') \<and> \<not> sublist ''.md'' (rel @ ''.m'') \<and>
    (rel = [] \<or> hd rel \<noteq> CHR ''/'') \<longrightarrow>
      corpus_key r (r @ ''/'' @ rel @ ''.md'') = rel"
    using corpus_key_md [of r rel] by blast
qed

theorem corpus_construction_witness:
  "filepath_Join [''R'', ''analyzer'', ''ruby''] = ''R/analyzer/ruby'' \<and>
   file_entries ''R/analyzer/ruby'' (walk ''R/analyzer/ruby''
     (Dir [(''typeA'', Dir [(''x.md'', File (Inr ''about x''))]),
           (''typeB'', Dir [(''y.md'', File (Inr ''about y''))])])) =
     [(''typeA/x'', ''about x''), (''typeB/y'', ''about y'')] \<and>
   (\<exists>a. NewAnalyzer (example_exercism (example_solution ''ruby'')) ''http://analysseur'' ''R''
          (Dir [(''typeA'', Dir [(''x.md'', File (Inr ''about x''))]),
                (''typeB'', Dir [(''y.md'', File (Inr ''about y''))])]) = Inr a \<and>
        dom (comments a) = {''typeA/x'', ''typeB/y''} \<and>
        comments a ''typeA/x'' = Some ''about x'' \<and>
        comments a ''typeB/y'' = Some ''about y'') \<and>
   corpus_key ''R/analyzer/ruby'' (''R/analyzer/ruby'' @ ''/'' @ ''typeA/x'' @ ''.md'') = ''typeA/x''"
proof -
  let ?tree = "Dir [(''typeA'', Dir [(''x.md'', File (Inr ''about x''))]),
                    (''typeB'', Dir [(''y.md'', File (Inr ''about y''))])]"
  let ?ex = "example_exercism (example_solution ''ruby'')"
  have j: "filepath_Join [''R'', ''analyzer'', ''ruby''] = ''R/analyzer/ruby''"
    by code_simp
  have r: "all_readable (walk ''R/analyzer/ruby'' ?tree)"
    by code_simp
  have e: "file_entries ''R/analyzer/ruby'' (walk ''R/analyzer/ruby'' ?tree) =
      [(''typeA/x'', ''about x''), (''typeB/y'', ''about y'')]"
    by code_simp
  have s: "\<not> sublist ''R/analyzer/ruby'' (''/'' @ ''typeA/x'' @ ''.md'')"
    "\<not> sublist ''.md'' (''typeA/x'' @ ''.m'')"
    by code_simp+
  have k: "corpus_key ''R/analyzer/ruby'' (''R/analyzer/ruby'' @ ''/'' @ ''typeA/x'' @ ''.md'') = ''typeA/x''"
    using corpus_construction [of "''R''" ?tree ?ex "''http://analysseur''" "''R/analyzer/ruby''" "''typeA/x''"] s
    by simp
  from corpus_construction [of "''R''" ?tree ?ex "''http://analysseur''" "''R/analyzer/ruby''" "''typeA/x''"]
  have "\<exists>a. NewAnalyzer ?ex ''http://analysseur'' ''R'' ?tree = Inr a \<and>
        dom (comments a) = {''typeA/x'', ''typeB/y''} \<and>
        comments a ''typeA/x'' = Some ''about x'' \<and>
        comments a ''typeB/y'' = Some ''about y''"
    unfolding Let_def j e using r by auto
  with j e k show ?thesis by blast
qed

text \<open>
  Claim C2 as stated fails for a file whose extension is not \<open>.md\<close>: the claim gives
  the file \<open>typeA/x.txt\<close> the key \<open>typeA/x\<close>, and the corpus that is built has the one key
  \<open>typeA/x.txt\<close>.
\<close>

theorem corpus_key_extension_counterexample:
  "walk (filepath_Join [''R'', ''analyzer'', ''ruby''])
     (Dir [(''typeA'', Dir [(''x.txt'', File (Inr ''note''))])]) =
     [(''R/analyzer/ruby'', Dir [(''typeA'', Dir [(''x.txt'', File (Inr ''note''))])]),
      (''R/analyzer/ruby/typeA'', Dir [(''x.txt'', File (Inr ''note''))]),
      (''R/analyzer/ruby/typeA/x.txt'', File (Inr ''note''))] \<and>
   spec_key ''R/analyzer/ruby'' ''R/analyzer/ruby/typeA/x.txt'' = ''typeA/x'' \<and>
   NewAnalyzer (example_exercism (example_solution ''ruby'')) ''http://analysseur'' ''R''
     (Dir [(''typeA'', Dir [(''x.txt'', File (Inr ''note''))])]) =
     Inr \<lparr>exercism = example_exercism (example_solution ''ruby''),
          analysseurHost = ''http://analysseur'',
          comments = [''typeA/x.txt'' \<mapsto> ''note'']\<rparr> \<and>
   [''typeA/x.txt'' \<mapsto> ''note''] ''typeA/x'' = None"
proof -
  let ?tree = "Dir [(''typeA'', Dir [(''x.txt'', File (Inr ''note''))])]"
  have j: "filepath_Join [''R'', ''analyzer'', ''ruby''] = ''R/analyzer/ruby''"
    by code_simp
  have w: "walk ''R/analyzer/ruby'' ?tree =
     [(''R/analyzer/ruby'', Dir [(''typeA'', Dir [(''x.txt'', File (Inr ''note''))])]),
      (''R/analyzer/ruby/typeA'', Dir [(''x.txt'', File (Inr ''note''))]),
      (''R/analyzer/ruby/typeA/x.txt'', File (Inr ''note''))]"
    by code_simp
  have s: "spec_key ''R/analyzer/ruby'' ''R/analyzer/ruby/typeA/x.txt'' = ''typeA/x''"
    by code_simp
  have k: "corpus_key ''R/analyzer/ruby'' ''R/analyzer/ruby/typeA/x.txt'' = ''typeA/x.txt''"
    by code_simp
  have n: "NewAnalyzer (example_exercism (example_solution ''ruby'')) ''http://analysseur'' ''R'' ?tree =
     Inr \<lparr>exercism = example_exercism (example_solution ''ruby''),
          analysseurHost = ''http://analysseur'',
          comments = [''typeA/x.txt'' \<mapsto> ''note'']\<rparr>"
    unfolding NewAnalyzer_def filepath_Walk_def j Let_def w
    by (simp add: fn_Dir fn_File k)
  have m: "[''typeA/x.txt'' \<mapsto> ''note''] ''typeA/x'' = None"
    by simp
  show ?thesis
    unfolding j by (intro conjI w s n m)
qed

end
